theory Spec2Isabelle
  imports Main "HOL-Library.Sublist"
begin

section \<open>The cat image notebook: from pet records to a download list\<close>

text \<open>
  The notebook \<^verbatim>\<open>petpy/Download 45,000 Adoptable Cat Images with petpy and
  multiprocessing.ipynb\<close> turns a table of pet records into a list of image URLs and
  downloads them. The table operations are pandas calls; each is modelled by a list
  function that returns the rows in the order pandas leaves them in.

  Conventions of the model:
  \<^item> a string is a list of Isabelle's 8-bit characters, read as the code points
    U+0000 to U+00FF of a Python \<^verbatim>\<open>str\<close>;
  \<^item> a missing cell (NaN) is \<open>None\<close>;
  \<^item> the identifier and the primary breed label \<^verbatim>\<open>breed0\<close> of a record are always
    present (the notebook itself never drops rows on them), the secondary label
    \<^verbatim>\<open>breed1\<close> and every photo cell may be missing;
  \<^item> a Python exception that ends a cell is a value \<open>Inl e\<close>.
\<close>

subsection \<open>Records and rows\<close>

datatype error = ValueError | OverflowError | KeyError

text \<open>
  One row of the frame \<^verbatim>\<open>cats\<close>, restricted to the columns that
  \<^verbatim>\<open>get_images\<close> keeps: \<^verbatim>\<open>id\<close>, \<^verbatim>\<open>breed0\<close>, \<^verbatim>\<open>breed1\<close> and the photo columns, in
  column order. A record with fewer photo cells than the widest record has NaN in the
  remaining columns.
\<close>

record pet =
  pet_id :: int
  breed0 :: string
  breed1 :: "string option"
  photos :: "string option list"

text \<open>A row of \<^verbatim>\<open>breed_photos\<close>: columns \<^verbatim>\<open>id\<close>, \<^verbatim>\<open>breed\<close>, \<^verbatim>\<open>img\<close>.\<close>

record breed_photo =
  row_id :: int
  breed :: string
  img :: string

text \<open>The same row once the column \<^verbatim>\<open>image_width\<close> has been added.\<close>

record image_row = breed_photo +
  image_width :: int

subsection \<open>\<^verbatim>\<open>get_images\<close>\<close>

definition ncols :: "pet list \<Rightarrow> nat" where
  "ncols df = foldr (\<lambda>p n. max (length (photos p)) n) df 0"

definition photo_at :: "pet \<Rightarrow> nat \<Rightarrow> string option" where
  "photo_at p j = (if j < length (photos p) then photos p ! j else None)"

text \<open>
  \<^verbatim>\<open>pd.melt(photos, id_vars=['id', 'breed0', 'breed1'])\<close>: the value columns are stacked
  one below the other, so the rows come column by column and, inside a column, in table
  order. The column \<^verbatim>\<open>variable\<close> is deleted right after and is left out.
\<close>

definition melt :: "pet list \<Rightarrow> (int \<times> string \<times> string option \<times> string option) list" where
  "melt df =
     concat (map (\<lambda>j. map (\<lambda>p. (pet_id p, breed0 p, breed1 p, photo_at p j)) df)
                 [0..<ncols df])"

text \<open>\<^verbatim>\<open>photos_melted.dropna(subset=['value'], inplace=True)\<close>\<close>

definition photos_melted :: "pet list \<Rightarrow> (int \<times> string \<times> string option \<times> string) list" where
  "photos_melted df =
     concat (map (\<lambda>(i, b0, b1, v). case v of None \<Rightarrow> [] | Some u \<Rightarrow> [(i, b0, b1, u)])
                 (melt df))"

text \<open>\<^verbatim>\<open>breeds1\<close>: the columns \<^verbatim>\<open>id\<close>, \<^verbatim>\<open>breed0\<close>, \<^verbatim>\<open>value\<close>, renamed.\<close>

definition breeds1 :: "(int \<times> string \<times> string option \<times> string) list \<Rightarrow> breed_photo list" where
  "breeds1 pm = map (\<lambda>(i, b0, b1, u). \<lparr>row_id = i, breed = b0, img = u\<rparr>) pm"

text \<open>\<^verbatim>\<open>breeds2\<close>: the columns \<^verbatim>\<open>id\<close>, \<^verbatim>\<open>breed1\<close>, \<^verbatim>\<open>value\<close>, after \<^verbatim>\<open>dropna\<close>, renamed.\<close>

definition breeds2 :: "(int \<times> string \<times> string option \<times> string) list \<Rightarrow> breed_photo list" where
  "breeds2 pm =
     concat (map (\<lambda>(i, b0, b1, u).
                    case b1 of None \<Rightarrow> [] | Some b \<Rightarrow> [\<lparr>row_id = i, breed = b, img = u\<rparr>]) pm)"

text \<open>
  \<^verbatim>\<open>DataFrame.drop_duplicates(subset=...)\<close> with the default \<^verbatim>\<open>keep='first'\<close>: a row is
  dropped when an earlier row has the same values in the columns of \<open>subset\<close>. \<open>key\<close>
  projects a row to these columns; \<open>seen\<close> holds the keys of the rows passed so far.
\<close>

fun drop_duplicates_from :: "('a \<Rightarrow> 'k) \<Rightarrow> 'k list \<Rightarrow> 'a list \<Rightarrow> 'a list" where
  "drop_duplicates_from key seen [] = []"
| "drop_duplicates_from key seen (x # xs) =
     (if key x \<in> set seen then drop_duplicates_from key seen xs
      else x # drop_duplicates_from key (key x # seen) xs)"

definition drop_duplicates :: "('a \<Rightarrow> 'k) \<Rightarrow> 'a list \<Rightarrow> 'a list" where
  "drop_duplicates key xs = drop_duplicates_from key [] xs"

text \<open>
  \<^verbatim>\<open>breeds1.append(breeds2).drop_duplicates().reset_index()\<close>: all columns are compared.
\<close>

definition get_images :: "pet list \<Rightarrow> breed_photo list" where
  "get_images df =
     (let pm = photos_melted df
      in drop_duplicates (\<lambda>r. r) (breeds1 pm @ breeds2 pm))"

subsection \<open>The width of an image\<close>

text \<open>
  \<^verbatim>\<open>.str.split('width=', 1)\<close> splits at the first occurrence of the pattern only and gives
  one piece when there is none. The pattern is not empty; \<open>before\<close> holds the characters
  passed so far, last first.
\<close>

fun split_first :: "string \<Rightarrow> string \<Rightarrow> string \<Rightarrow> string list" where
  "split_first pat before [] = [rev before]"
| "split_first pat before (c # cs) =
     (if prefix pat (c # cs) then [rev before, drop (length pat) (c # cs)]
      else split_first pat (c # before) cs)"

text \<open>\<^verbatim>\<open>.str.split('&', 0)\<close>: a limit of 0 means every occurrence.\<close>

fun split_all :: "char \<Rightarrow> string \<Rightarrow> string \<Rightarrow> string list" where
  "split_all sep piece [] = [rev piece]"
| "split_all sep piece (c # cs) =
     (if c = sep then rev piece # split_all sep [] cs else split_all sep (c # piece) cs)"

text \<open>\<^verbatim>\<open>.str[i]\<close>: the element at \<open>i\<close>, NaN when the list is too short.\<close>

definition str_get :: "nat \<Rightarrow> 'a list \<Rightarrow> 'a option" where
  "str_get i xs = (if i < length xs then Some (xs ! i) else None)"

text \<open>
  \<^verbatim>\<open>.astype(int)\<close> turns each string into a number as Python's \<^verbatim>\<open>int(s)\<close> does: white
  space around the literal is skipped, a sign may come first, and the digits may be
  grouped by single underscores. Any other string raises \<^verbatim>\<open>ValueError\<close>, and so does NaN.
\<close>

definition py_isspace :: "char \<Rightarrow> bool" where
  "py_isspace c \<longleftrightarrow> (of_char c :: nat) \<in> {9, 10, 11, 12, 13, 32, 133, 160}"

definition digit_value :: "char \<Rightarrow> nat option" where
  "digit_value c =
     (let n = (of_char c :: nat) in if 48 \<le> n \<and> n \<le> 57 then Some (n - 48) else None)"

fun digits_from :: "nat \<Rightarrow> string \<Rightarrow> nat option" where
  "digits_from acc [] = Some acc"
| "digits_from acc [c] =
     (case digit_value c of None \<Rightarrow> None | Some v \<Rightarrow> Some (10 * acc + v))"
| "digits_from acc (c # d # ds) =
     (if c = CHR ''_''
      then (case digit_value d of None \<Rightarrow> None | Some v \<Rightarrow> digits_from (10 * acc + v) ds)
      else (case digit_value c of None \<Rightarrow> None
            | Some v \<Rightarrow> digits_from (10 * acc + v) (d # ds)))"

definition py_digits :: "string \<Rightarrow> nat option" where
  "py_digits s =
     (case s of [] \<Rightarrow> None
      | c # cs \<Rightarrow> (case digit_value c of None \<Rightarrow> None | Some v \<Rightarrow> digits_from v cs))"

definition strip :: "string \<Rightarrow> string" where
  "strip s = rev (dropWhile py_isspace (rev (dropWhile py_isspace s)))"

definition py_int :: "string \<Rightarrow> int option" where
  "py_int s =
     (case strip s of
        [] \<Rightarrow> None
      | c # cs \<Rightarrow>
          if c = CHR ''+'' then map_option int (py_digits cs)
          else if c = CHR ''-'' then map_option (\<lambda>n. - int n) (py_digits cs)
          else map_option int (py_digits (c # cs)))"

text \<open>The column has 64-bit integers: a number outside their range raises.\<close>

definition astype_int :: "string option \<Rightarrow> error + int" where
  "astype_int cell =
     (case cell of
        None \<Rightarrow> Inl ValueError
      | Some s \<Rightarrow>
          (case py_int s of
             None \<Rightarrow> Inl ValueError
           | Some n \<Rightarrow> if - (2 ^ 63) \<le> n \<and> n < 2 ^ 63 then Inr n else Inl OverflowError))"

text \<open>
  \<^verbatim>\<open>img.str.split('width=', 1).str[1].str.split('&', 0).str[0].astype(int)\<close> on one
  cell.
\<close>

definition url_width :: "string \<Rightarrow> error + int" where
  "url_width url =
     astype_int
       (case str_get 1 (split_first ''width='' [] url) of
          None \<Rightarrow> None
        | Some rest \<Rightarrow> str_get 0 (split_all CHR ''&'' [] rest))"

subsection \<open>From \<^verbatim>\<open>cat_breed_images\<close> to \<^verbatim>\<open>breed_images_5000\<close>\<close>

text \<open>
  \<^verbatim>\<open>cat_breed_images['image_width'] = ...\<close>: the column is computed cell by cell, and the
  first cell that does not convert raises.
\<close>

fun add_image_width :: "breed_photo list \<Rightarrow> error + image_row list" where
  "add_image_width [] = Inr []"
| "add_image_width (r # rs) =
     (case url_width (img r) of
        Inl e \<Rightarrow> Inl e
      | Inr w \<Rightarrow>
          (case add_image_width rs of
             Inl e \<Rightarrow> Inl e
           | Inr ws \<Rightarrow>
               Inr (\<lparr>row_id = row_id r, breed = breed r, img = img r, image_width = w\<rparr> # ws)))"

definition cat_breed_images :: "pet list \<Rightarrow> error + image_row list" where
  "cat_breed_images cats = add_image_width (get_images cats)"

text \<open>
  \<^verbatim>\<open>cat_breed_images.groupby('id').apply(lambda x: x[x['image_width'] == 500])\<close>, followed
  by the three statements that turn the group key back into the column \<^verbatim>\<open>id\<close>: the groups
  come in increasing order of \<^verbatim>\<open>id\<close>, and the rows of a group keep their order. This is
  the frame that \<^verbatim>\<open>apply\<close> builds when some group loses a row: only then does the result
  carry the group keys in its index.
\<close>

definition groupby_id_width :: "int \<Rightarrow> image_row list \<Rightarrow> image_row list" where
  "groupby_id_width w rows = sort_key row_id (filter (\<lambda>r. image_width r = w) rows)"

text \<open>\<^verbatim>\<open>.str.replace(c, rep)\<close> for a pattern of one character: every occurrence.\<close>

definition str_replace :: "char \<Rightarrow> string \<Rightarrow> string \<Rightarrow> string" where
  "str_replace c rep s = concat (map (\<lambda>x. if x = c then rep else [x]) s)"

text \<open>
  \<^verbatim>\<open>cat_images_largest['breed'].str.replace(' ', '_')\<close>, then
  \<^verbatim>\<open>.str.replace('/', '')\<close>.
\<close>

definition sanitize :: "string \<Rightarrow> string" where
  "sanitize b = str_replace CHR ''/'' [] (str_replace CHR '' '' ''_'' b)"

text \<open>
  The table \<^verbatim>\<open>cat_images_largest\<close> after the two replacements in its column
  \<^verbatim>\<open>breed\<close>. When every row of \<^verbatim>\<open>cat_breed_images\<close> has the width 500, and so also when
  it has no row, the lambda returns every group as it is and \<^verbatim>\<open>apply\<close> (pandas before
  2.0, which \<^verbatim>\<open>DataFrame.append\<close> requires) adds no group keys: the result has the index
  of the table, there is no column \<^verbatim>\<open>level_1\<close> after \<^verbatim>\<open>reset_index\<close>, and
  \<^verbatim>\<open>del cat_images_largest['level_1']\<close> raises \<^verbatim>\<open>KeyError\<close>.
\<close>

definition cat_images_largest :: "pet list \<Rightarrow> error + image_row list" where
  "cat_images_largest cats =
     (case cat_breed_images cats of
        Inl e \<Rightarrow> Inl e
      | Inr rows \<Rightarrow>
          if (\<forall>r\<in>set rows. image_width r = 500) then Inl KeyError
          else Inr (map (\<lambda>r. r\<lparr>breed := sanitize (breed r)\<rparr>) (groupby_id_width 500 rows)))"

text \<open>\<^verbatim>\<open>cat_images_largest.drop_duplicates(subset=['img', 'id'])\<close>\<close>

definition breed_images :: "pet list \<Rightarrow> error + image_row list" where
  "breed_images cats =
     (case cat_images_largest cats of
        Inl e \<Rightarrow> Inl e
      | Inr rows \<Rightarrow> Inr (drop_duplicates (\<lambda>r. (img r, row_id r)) rows))"

text \<open>
  \<^verbatim>\<open>groupby(key).head(n)\<close>: the rows stay in table order, and a row is kept when fewer
  than \<open>n\<close> rows of its group come before it. \<open>cnt\<close> counts the rows passed so far in each
  group.
\<close>

fun groupby_head_from :: "('a \<Rightarrow> 'k) \<Rightarrow> nat \<Rightarrow> ('k \<Rightarrow> nat) \<Rightarrow> 'a list \<Rightarrow> 'a list" where
  "groupby_head_from key n cnt [] = []"
| "groupby_head_from key n cnt (x # xs) =
     (if cnt (key x) < n
      then x # groupby_head_from key n (cnt(key x := Suc (cnt (key x)))) xs
      else groupby_head_from key n (cnt(key x := Suc (cnt (key x)))) xs)"

definition groupby_head :: "('a \<Rightarrow> 'k) \<Rightarrow> nat \<Rightarrow> 'a list \<Rightarrow> 'a list" where
  "groupby_head key n xs = groupby_head_from key n (\<lambda>k. 0) xs"

text \<open>\<^verbatim>\<open>breed_images.groupby('breed').head(5000).reset_index()\<close>\<close>

definition breed_images_5000 :: "pet list \<Rightarrow> error + image_row list" where
  "breed_images_5000 cats =
     (case breed_images cats of
        Inl e \<Rightarrow> Inl e
      | Inr rows \<Rightarrow> Inr (groupby_head breed 5000 rows))"

text \<open>
  \<^verbatim>\<open>breed_list_new\<close>: one triple of index, breed and URL for each row, the index being
  the position of the row after \<^verbatim>\<open>reset_index\<close>.
\<close>

definition breed_list_new :: "pet list \<Rightarrow> error + (nat \<times> string \<times> string) list" where
  "breed_list_new cats =
     (case breed_images_5000 cats of
        Inl e \<Rightarrow> Inl e
      | Inr rows \<Rightarrow> Inr (map (\<lambda>(i, r). (i, breed r, img r)) (zip [0..<length rows] rows)))"

subsection \<open>\<^verbatim>\<open>download_breed_images\<close>\<close>

text \<open>
  What a call of \<^verbatim>\<open>urllib.request.urlretrieve(url, filename)\<close> can do: save the file, or
  raise. \<^verbatim>\<open>HTTPError\<close> carries the status code of the response; \<^verbatim>\<open>URLError\<close> (no route,
  refused connection, unknown host), \<^verbatim>\<open>ContentTooShortError\<close> (the transfer broke off) and
  a socket timeout are the other failures of the transport.
\<close>

datatype fetch_error =
  HTTPError int
| URLError string
| ContentTooShortError
| SocketTimeout

datatype fetch_result = Saved | Failed fetch_error

datatype completion = Returns | Raises fetch_error

text \<open>\<^verbatim>\<open>str(i)\<close> for an index.\<close>

fun str_nat :: "nat \<Rightarrow> string" where
  "str_nat n =
     (if n < 10 then [char_of (48 + n)]
      else str_nat (n div 10) @ [char_of (48 + n mod 10)])"

text \<open>\<^verbatim>\<open>os.path.join\<close> of POSIX, one step: a component that starts with a slash starts over.\<close>

definition path_join :: "string \<Rightarrow> string \<Rightarrow> string" where
  "path_join a b =
     (if b \<noteq> [] \<and> hd b = CHR ''/'' then b
      else if a = [] \<or> last a = CHR ''/'' then a @ b
      else a @ ''/'' @ b)"

definition image_path :: "nat \<Rightarrow> string \<Rightarrow> string" where
  "image_path i b = path_join (path_join ''cat_breeds/'' b) (b @ str_nat i @ ''.jpg'')"

text \<open>
  The worker: \<open>urlretrieve\<close> stands for the network and the disk. The result is how the
  call ends and what it printed.
\<close>

definition download_breed_images ::
    "(string \<Rightarrow> string \<Rightarrow> fetch_result) \<Rightarrow> nat \<times> string \<times> string \<Rightarrow> completion \<times> int list" where
  "download_breed_images urlretrieve breed_img =
     (case breed_img of
        (i, b, url) \<Rightarrow>
          (case urlretrieve url (image_path i b) of
             Saved \<Rightarrow> (Returns, [])
           | Failed (HTTPError code) \<Rightarrow> (Returns, [code])
           | Failed err \<Rightarrow> (Raises err, [])))"

subsection \<open>Sample tables\<close>

text \<open>
  Two records as the Petfinder API returns them: the first has two breed labels and a
  missing third photo, the second one label. Each has its photo in two sizes.
\<close>

definition example_cats :: "pet list" where
  "example_cats =
     [\<lparr>pet_id = 40181161, breed0 = ''Domestic Short Hair'',
       breed1 = Some ''Extra-Toes Cat / Hemingway Polydactyl'',
       photos = [Some ''http://photos.petfinder.com/photos/pets/40181161/1/?bust=1512&width=60&-pnt.jpg'',
                 Some ''http://photos.petfinder.com/photos/pets/40181161/1/?bust=1512&width=500&-x.jpg'',
                 None]\<rparr>,
      \<lparr>pet_id = 38018075, breed0 = ''Tabby'', breed1 = None,
       photos = [Some ''http://photos.petfinder.com/photos/pets/38018075/1/?bust=1498&width=300&-pn.jpg'',
                 Some ''http://photos.petfinder.com/photos/pets/38018075/1/?bust=1498&width=500&-x.jpg'']\<rparr>]"

definition example_largest :: "image_row list" where
  "example_largest =
     [\<lparr>row_id = 38018075, breed = ''Tabby'',
       img = ''http://photos.petfinder.com/photos/pets/38018075/1/?bust=1498&width=500&-x.jpg'',
       image_width = 500\<rparr>,
      \<lparr>row_id = 40181161, breed = ''Domestic_Short_Hair'',
       img = ''http://photos.petfinder.com/photos/pets/40181161/1/?bust=1512&width=500&-x.jpg'',
       image_width = 500\<rparr>,
      \<lparr>row_id = 40181161, breed = ''Extra-Toes_Cat__Hemingway_Polydactyl'',
       img = ''http://photos.petfinder.com/photos/pets/40181161/1/?bust=1512&width=500&-x.jpg'',
       image_width = 500\<rparr>]"

definition example_rows :: "image_row list" where
  "example_rows =
     [\<lparr>row_id = 38018075, breed = ''Tabby'',
       img = ''http://photos.petfinder.com/photos/pets/38018075/1/?bust=1498&width=500&-x.jpg'',
       image_width = 500\<rparr>,
      \<lparr>row_id = 40181161, breed = ''Domestic_Short_Hair'',
       img = ''http://photos.petfinder.com/photos/pets/40181161/1/?bust=1512&width=500&-x.jpg'',
       image_width = 500\<rparr>]"

definition example_triples :: "(nat \<times> string \<times> string) list" where
  "example_triples =
     [(0, ''Tabby'',
       ''http://photos.petfinder.com/photos/pets/38018075/1/?bust=1498&width=500&-x.jpg''),
      (1, ''Domestic_Short_Hair'',
       ''http://photos.petfinder.com/photos/pets/40181161/1/?bust=1512&width=500&-x.jpg'')]"

text \<open>A record with two different breed labels, one with the same label twice.\<close>

definition two_breed_cat :: pet where
  "two_breed_cat =
     \<lparr>pet_id = 38017865, breed0 = ''Siamese'', breed1 = Some ''Tabby'',
      photos = [Some ''http://photos.petfinder.com/photos/pets/38017865/1/?bust=1499&width=300&-pn.jpg'',
                Some ''http://photos.petfinder.com/photos/pets/38017865/1/?bust=1499&width=500&-x.jpg'']\<rparr>"

definition same_breed_cat :: pet where
  "same_breed_cat =
     \<lparr>pet_id = 38017999, breed0 = ''Tabby'', breed1 = Some ''Tabby'',
      photos = [Some ''http://photos.petfinder.com/photos/pets/38017999/1/?bust=1499&width=300&-pn.jpg'',
                Some ''http://photos.petfinder.com/photos/pets/38017999/1/?bust=1499&width=500&-x.jpg'']\<rparr>"

text \<open>A record whose second photo cell holds a URL with no width in it.\<close>

definition no_width_cat :: pet where
  "no_width_cat =
     \<lparr>pet_id = 38018001, breed0 = ''Tabby'', breed1 = None,
      photos = [Some ''http://photos.petfinder.com/photos/pets/38018001/1/?bust=1499&width=500&-x.jpg'',
                Some ''http://photos.petfinder.com/photos/pets/38018001/2.jpg'']\<rparr>"

text \<open>A record without photos.\<close>

definition no_photo_cat :: pet where
  "no_photo_cat = \<lparr>pet_id = 38018002, breed0 = ''Tabby'', breed1 = None, photos = [None, None]\<rparr>"

text \<open>A record has a photo when one of its photo cells is not NaN.\<close>

definition has_photo :: "pet \<Rightarrow> bool" where
  "has_photo p \<longleftrightarrow> (\<exists>c\<in>set (photos p). c \<noteq> None)"

text \<open>
  The row of the secondary label of the sample's first record, as it stands in
  \<^verbatim>\<open>cat_images_largest\<close>.
\<close>

definition example_extra_toes_row :: image_row where
  "example_extra_toes_row =
     \<lparr>row_id = 40181161, breed = ''Extra-Toes_Cat__Hemingway_Polydactyl'',
      img = ''http://photos.petfinder.com/photos/pets/40181161/1/?bust=1512&width=500&-x.jpg'',
      image_width = 500\<rparr>"

text \<open>The second row of the sample's final table.\<close>

definition example_short_hair_row :: image_row where
  "example_short_hair_row =
     \<lparr>row_id = 40181161, breed = ''Domestic_Short_Hair'',
      img = ''http://photos.petfinder.com/photos/pets/40181161/1/?bust=1512&width=500&-x.jpg'',
      image_width = 500\<rparr>"

text \<open>The URL of one photo in the size \<open>w\<close>, as the API writes it.\<close>

definition photo_url :: "string \<Rightarrow> string \<Rightarrow> string" where
  "photo_url w tag =
     ''http://photos.petfinder.com/photos/pets/40181161/1/?bust=1512&width='' @ w @ ''&-'' @
     tag @ ''.jpg''"

definition five_width_cat :: pet where
  "five_width_cat =
     \<lparr>pet_id = 40181161, breed0 = ''Domestic Short Hair'', breed1 = Some ''Tabby'',
      photos = [Some (photo_url ''50'' ''t''), Some (photo_url ''60'' ''pnt''),
                Some (photo_url ''95'' ''fpm''), Some (photo_url ''300'' ''pn''),
                Some (photo_url ''500'' ''x'')]\<rparr>"

section \<open>Properties of the table operations\<close>

subsection \<open>\<^verbatim>\<open>drop_duplicates\<close> and \<^verbatim>\<open>groupby(...).head\<close>\<close>

lemma set_drop_duplicates_from:
  "x \<in> set (drop_duplicates_from key seen xs) \<Longrightarrow> x \<in> set xs \<and> key x \<notin> set seen"
proof (induction xs arbitrary: seen)
  case Nil
  then show ?case by simp
next
  case (Cons a xs)
  show ?case
  proof (cases "key a \<in> set seen")
    case True
    with Cons.prems have "x \<in> set (drop_duplicates_from key seen xs)" by simp
    from Cons.IH [OF this] show ?thesis by simp
  next
    case False
    with Cons.prems have "x = a \<or> x \<in> set (drop_duplicates_from key (key a # seen) xs)"
      by auto
    then show ?thesis
    proof
      assume "x = a"
      with False show ?thesis by simp
    next
      assume "x \<in> set (drop_duplicates_from key (key a # seen) xs)"
      from Cons.IH [OF this] show ?thesis by simp
    qed
  qed
qed

lemma keys_drop_duplicates_from:
  "key ` set (drop_duplicates_from key seen xs) = key ` set xs - set seen"
  by (induction xs arbitrary: seen) auto

lemma distinct_drop_duplicates_from:
  "distinct (map key (drop_duplicates_from key seen xs))"
proof (induction xs arbitrary: seen)
  case Nil
  show ?case by simp
next
  case (Cons x xs)
  have "key x \<notin> key ` set (drop_duplicates_from key (key x # seen) xs)"
    by (simp add: keys_drop_duplicates_from)
  with Cons show ?case by simp
qed

lemma subseq_drop_duplicates_from: "subseq (drop_duplicates_from key seen xs) xs"
  by (induction xs arbitrary: seen) auto

lemma find_drop_duplicates_from:
  "x \<in> set (drop_duplicates_from key seen xs) \<Longrightarrow>
   List.find (\<lambda>y. key y = key x) xs = Some x"
proof (induction xs arbitrary: seen)
  case Nil
  then show ?case by simp
next
  case (Cons a xs)
  show ?case
  proof (cases "key a \<in> set seen")
    case True
    with Cons.prems have mem: "x \<in> set (drop_duplicates_from key seen xs)" by simp
    then have "key x \<notin> set seen"
      by (simp add: set_drop_duplicates_from)
    with True have "key a \<noteq> key x" by auto
    with Cons.IH [OF mem] show ?thesis by simp
  next
    case False
    with Cons.prems have "x = a \<or> x \<in> set (drop_duplicates_from key (key a # seen) xs)"
      by auto
    then show ?thesis
    proof
      assume "x = a"
      then show ?thesis by simp
    next
      assume mem: "x \<in> set (drop_duplicates_from key (key a # seen) xs)"
      then have "key x \<notin> set (key a # seen)"
        by (rule set_drop_duplicates_from [THEN conjunct2])
      then have "key a \<noteq> key x" by auto
      with Cons.IH [OF mem] show ?thesis by simp
    qed
  qed
qed

lemma find_drop_duplicates_rows_from:
  "List.find Q (drop_duplicates_from (\<lambda>r. r) seen xs) = List.find (\<lambda>x. Q x \<and> x \<notin> set seen) xs"
proof (induction xs arbitrary: seen)
  case Nil
  show ?case by simp
next
  case (Cons a xs)
  show ?case
  proof (cases "a \<in> set seen")
    case True
    with Cons.IH [of seen] show ?thesis by simp
  next
    case False
    show ?thesis
    proof (cases "Q a")
      case True
      with False show ?thesis by simp
    next
      case nq: False
      have "List.find (\<lambda>x. Q x \<and> x \<notin> set (a # seen)) xs = List.find (\<lambda>x. Q x \<and> x \<notin> set seen) xs"
        using nq by (intro find_cong) auto
      with Cons.IH [of "a # seen"] False nq show ?thesis by simp
    qed
  qed
qed

lemma set_drop_duplicates_rows: "set (drop_duplicates (\<lambda>r. r) xs) = set xs"
  using keys_drop_duplicates_from [of "\<lambda>r. r" "[]" xs] by (simp add: drop_duplicates_def)

lemma distinct_drop_duplicates_rows: "distinct (drop_duplicates (\<lambda>r. r) xs)"
  using distinct_drop_duplicates_from [of "\<lambda>r. r" "[]" xs] by (simp add: drop_duplicates_def)

lemma filter_groupby_head_from:
  "filter (\<lambda>x. key x = k) (groupby_head_from key n cnt xs) =
   take (n - cnt k) (filter (\<lambda>x. key x = k) xs)"
proof (induction xs arbitrary: cnt)
  case Nil
  show ?case by simp
next
  case (Cons a xs)
  show ?case
  proof (cases "key a = k")
    case True
    show ?thesis
    proof (cases "cnt k < n")
      case lt: True
      then have "n - cnt k = Suc (n - Suc (cnt k))" by simp
      with True lt show ?thesis by (simp add: Cons.IH)
    next
      case False
      with True show ?thesis by (simp add: Cons.IH)
    qed
  next
    case False
    then show ?thesis by (simp add: Cons.IH)
  qed
qed

lemma subseq_groupby_head_from: "subseq (groupby_head_from key n cnt xs) xs"
  by (induction xs arbitrary: cnt) auto

lemma filter_groupby_head:
  "filter (\<lambda>x. key x = k) (groupby_head key n xs) = take n (filter (\<lambda>x. key x = k) xs)"
  by (simp add: groupby_head_def filter_groupby_head_from)

lemma subseq_groupby_head: "subseq (groupby_head key n xs) xs"
  by (simp add: groupby_head_def subseq_groupby_head_from)

lemma set_groupby_head_from: "set (groupby_head_from key n cnt xs) \<subseteq> set xs"
  by (induction xs arbitrary: cnt) auto

lemma set_groupby_head: "set (groupby_head key n xs) \<subseteq> set xs"
  by (simp add: groupby_head_def set_groupby_head_from)

lemma distinct_map_groupby_head_from:
  "distinct (map f xs) \<Longrightarrow> distinct (map f (groupby_head_from key n cnt xs))"
proof (induction xs arbitrary: cnt)
  case Nil
  show ?case by simp
next
  case (Cons a xs)
  have "f ` set (groupby_head_from key n (cnt(key a := Suc (cnt (key a)))) xs) \<subseteq> f ` set xs"
    by (intro image_mono set_groupby_head_from)
  with Cons show ?case by auto
qed

lemma distinct_map_groupby_head:
  "distinct (map f xs) \<Longrightarrow> distinct (map f (groupby_head key n xs))"
  by (simp add: groupby_head_def distinct_map_groupby_head_from)

subsection \<open>The rows of \<^verbatim>\<open>get_images\<close>\<close>

lemma length_photos_le_ncols: "p \<in> set df \<Longrightarrow> length (photos p) \<le> ncols df"
  unfolding ncols_def by (induction df) auto

lemma photo_at_Some_iff: "(\<exists>j. photo_at p j = Some u) \<longleftrightarrow> Some u \<in> set (photos p)"
  by (auto simp: photo_at_def in_set_conv_nth split: if_splits)

lemma photo_at_Some_less: "photo_at p j = Some u \<Longrightarrow> j < length (photos p)"
  by (simp add: photo_at_def split: if_splits)

lemma set_melt:
  "set (melt df) =
   {(pet_id p, breed0 p, breed1 p, photo_at p j) | p j. p \<in> set df \<and> j < ncols df}"
  by (auto simp: melt_def) blast

lemma in_photos_melted_iff:
  "(i, b0, b1, u) \<in> set (photos_melted df) \<longleftrightarrow> (i, b0, b1, Some u) \<in> set (melt df)"
  by (auto simp: photos_melted_def split: option.splits)

lemma set_photos_melted:
  "set (photos_melted df) =
   {(pet_id p, breed0 p, breed1 p, u) | p u. p \<in> set df \<and> Some u \<in> set (photos p)}"
  (is "?L = ?R")
proof (rule set_eqI)
  fix x :: "int \<times> string \<times> string option \<times> string"
  obtain i b0 b1 u where x: "x = (i, b0, b1, u)" by (cases x) auto
  have "x \<in> ?L \<longleftrightarrow>
        (\<exists>p j. p \<in> set df \<and> j < ncols df \<and> i = pet_id p \<and> b0 = breed0 p \<and> b1 = breed1 p \<and>
               photo_at p j = Some u)"
    unfolding x in_photos_melted_iff set_melt by auto (blast, metis)
  also have "\<dots> \<longleftrightarrow>
        (\<exists>p. p \<in> set df \<and> i = pet_id p \<and> b0 = breed0 p \<and> b1 = breed1 p \<and> Some u \<in> set (photos p))"
  proof (intro iffI)
    assume "\<exists>p j. p \<in> set df \<and> j < ncols df \<and> i = pet_id p \<and> b0 = breed0 p \<and> b1 = breed1 p \<and>
               photo_at p j = Some u"
    then show "\<exists>p. p \<in> set df \<and> i = pet_id p \<and> b0 = breed0 p \<and> b1 = breed1 p \<and> Some u \<in> set (photos p)"
      using photo_at_Some_iff by blast
  next
    assume "\<exists>p. p \<in> set df \<and> i = pet_id p \<and> b0 = breed0 p \<and> b1 = breed1 p \<and> Some u \<in> set (photos p)"
    then obtain p where p: "p \<in> set df"
      and h: "i = pet_id p \<and> b0 = breed0 p \<and> b1 = breed1 p" and u: "Some u \<in> set (photos p)"
      by blast
    from u obtain j where j: "photo_at p j = Some u"
      using photo_at_Some_iff [of p u] by auto
    from photo_at_Some_less [OF j] length_photos_le_ncols [OF p] have "j < ncols df" by simp
    with j h p show "\<exists>p j. p \<in> set df \<and> j < ncols df \<and> i = pet_id p \<and> b0 = breed0 p \<and> b1 = breed1 p \<and>
               photo_at p j = Some u"
      by blast
  qed
  also have "\<dots> \<longleftrightarrow> x \<in> ?R"
    unfolding x by auto
  finally show "x \<in> ?L \<longleftrightarrow> x \<in> ?R" .
qed

lemma set_breeds1:
  "set (breeds1 (photos_melted df)) =
   {\<lparr>row_id = pet_id p, breed = breed0 p, img = u\<rparr> | p u.
      p \<in> set df \<and> Some u \<in> set (photos p)}"
  unfolding breeds1_def set_map set_photos_melted by (auto simp: image_iff) 

lemma set_breeds2:
  "set (breeds2 (photos_melted df)) =
   {\<lparr>row_id = pet_id p, breed = b, img = u\<rparr> | p u b.
      p \<in> set df \<and> Some u \<in> set (photos p) \<and> breed1 p = Some b}"
  unfolding breeds2_def set_concat set_map set_photos_melted
  by (auto split: option.splits) force

lemma set_get_images:
  "set (get_images df) =
   {\<lparr>row_id = pet_id p, breed = breed0 p, img = u\<rparr> | p u.
      p \<in> set df \<and> Some u \<in> set (photos p)} \<union>
   {\<lparr>row_id = pet_id p, breed = b, img = u\<rparr> | p u b.
      p \<in> set df \<and> Some u \<in> set (photos p) \<and> breed1 p = Some b}"
  by (simp add: get_images_def Let_def set_drop_duplicates_rows set_breeds1 set_breeds2)

lemma distinct_get_images: "distinct (get_images df)"
  by (simp add: get_images_def Let_def distinct_drop_duplicates_rows)

subsection \<open>The stages of the pipeline\<close>

lemma add_image_width_Inr:
  "add_image_width rs = Inr ws \<Longrightarrow>
   ws = map (\<lambda>r. \<lparr>row_id = row_id r, breed = breed r, img = img r,
                  image_width = (case url_width (img r) of Inr w \<Rightarrow> w | Inl e \<Rightarrow> 0)\<rparr>) rs \<and>
   (\<forall>r\<in>set rs. \<exists>w. url_width (img r) = Inr w)"
  by (induction rs arbitrary: ws) (auto split: sum.splits)

lemma add_image_width_url_width:
  "add_image_width rs = Inr ws \<Longrightarrow> w \<in> set ws \<Longrightarrow> url_width (img w) = Inr (image_width w)"
  by (induction rs arbitrary: ws) (auto split: sum.splits)

lemma add_image_width_Inl:
  "r \<in> set rs \<Longrightarrow> url_width (img r) = Inl e \<Longrightarrow> \<exists>e'. add_image_width rs = Inl e'"
  by (induction rs) (auto split: sum.splits)

lemma set_groupby_id_width:
  "set (groupby_id_width w rows) = {r \<in> set rows. image_width r = w}"
  by (simp add: groupby_id_width_def)

lemma cat_images_largest_width:
  assumes "cat_images_largest cats = Inr rows" and "r \<in> set rows"
  shows "url_width (img r) = Inr 500 \<and> image_width r = 500"
proof -
  from assms(1) obtain ws where ws: "cat_breed_images cats = Inr ws"
    and rows: "rows = map (\<lambda>r. r\<lparr>breed := sanitize (breed r)\<rparr>) (groupby_id_width 500 ws)"
    by (auto simp: cat_images_largest_def split: sum.splits if_splits)
  from assms(2) rows obtain x where x: "x \<in> set ws" "image_width x = 500"
    and r: "r = x\<lparr>breed := sanitize (breed x)\<rparr>"
    by (auto simp: set_groupby_id_width)
  from ws x(1) have "url_width (img x) = Inr (image_width x)"
    unfolding cat_breed_images_def by (rule add_image_width_url_width)
  with x(2) r show ?thesis by simp
qed

lemma set_breed_images:
  "cat_images_largest cats = Inr pre \<Longrightarrow> breed_images cats = Inr rows \<Longrightarrow> set rows \<subseteq> set pre"
  by (auto simp: breed_images_def drop_duplicates_def dest: set_drop_duplicates_from)

lemma breed_images_Inr:
  "breed_images cats = Inr rows \<Longrightarrow>
   \<exists>pre. cat_images_largest cats = Inr pre \<and> rows = drop_duplicates (\<lambda>r. (img r, row_id r)) pre"
  by (auto simp: breed_images_def split: sum.splits)

lemma breed_images_5000_Inr:
  "breed_images_5000 cats = Inr rows \<Longrightarrow>
   \<exists>pre. breed_images cats = Inr pre \<and> rows = groupby_head breed 5000 pre"
  by (auto simp: breed_images_5000_def split: sum.splits)

lemma breed_list_new_Inr:
  "breed_list_new cats = Inr triples \<Longrightarrow>
   \<exists>rows. breed_images_5000 cats = Inr rows \<and>
          triples = map (\<lambda>(i, r). (i, breed r, img r)) (zip [0..<length rows] rows)"
  by (auto simp: breed_list_new_def split: sum.splits)

lemma set_breed_images_5000:
  "cat_images_largest cats = Inr pre \<Longrightarrow> breed_images_5000 cats = Inr rows \<Longrightarrow>
   set rows \<subseteq> set pre"
  using set_groupby_head [of breed 5000] set_breed_images [of cats pre]
  by (auto dest!: breed_images_5000_Inr)

lemma triple_in_breed_list_new:
  "breed_list_new cats = Inr triples \<Longrightarrow> (i, b, u) \<in> set triples \<Longrightarrow>
   \<exists>rows r. breed_images_5000 cats = Inr rows \<and> r \<in> set rows \<and> b = breed r \<and> u = img r"
proof -
  assume "breed_list_new cats = Inr triples" and t: "(i, b, u) \<in> set triples"
  then obtain rows where rows: "breed_images_5000 cats = Inr rows"
    and triples: "triples = map (\<lambda>(i, r). (i, breed r, img r)) (zip [0..<length rows] rows)"
    by (auto dest!: breed_list_new_Inr)
  from t triples obtain r where "(i, r) \<in> set (zip [0..<length rows] rows)"
    and br: "b = breed r" "u = img r"
    by auto
  then have "r \<in> set rows" by (auto dest: set_zip_rightD)
  with rows br show ?thesis by blast
qed


lemma map_zip_fst:
  "length xs = length ys \<Longrightarrow> map (\<lambda>p. f (fst p)) (zip xs ys) = map f xs"
  by (induction xs ys rule: list_induct2) auto

lemma map_zip_snd:
  "length xs = length ys \<Longrightarrow> map (\<lambda>p. g (snd p)) (zip xs ys) = map g ys"
  by (induction xs ys rule: list_induct2) auto

lemma filter_zip_snd:
  "length xs = length ys \<Longrightarrow>
   length (filter (\<lambda>p. P (snd p)) (zip xs ys)) = length (filter P ys)"
  by (induction xs ys rule: list_induct2) auto

lemma distinct_breed_images:
  assumes "breed_images cats = Inr rows"
  shows "distinct (map (\<lambda>r. (row_id r, img r)) rows)"
proof -
  from assms obtain pre where rows: "rows = drop_duplicates (\<lambda>r. (img r, row_id r)) pre"
    by (auto dest: breed_images_Inr)
  have "distinct (map (\<lambda>r. (img r, row_id r)) rows)"
    unfolding rows drop_duplicates_def by (rule distinct_drop_duplicates_from)
  then have "distinct (map prod.swap (map (\<lambda>r. (img r, row_id r)) rows))"
    by (simp only: distinct_map) (simp add: inj_on_def)
  then show ?thesis by (simp add: comp_def)
qed

lemma sanitize_eq:
  "sanitize b = map (\<lambda>c. if c = CHR '' '' then CHR ''_'' else c) (filter (\<lambda>c. c \<noteq> CHR ''/'') b)"
  unfolding sanitize_def str_replace_def by (induction b) auto

lemma sanitize_clean: "CHR '' '' \<notin> set (sanitize b) \<and> CHR ''/'' \<notin> set (sanitize b)"
  unfolding sanitize_eq by auto

lemma cat_images_largest_breed:
  assumes "cat_images_largest cats = Inr rows" and "r \<in> set rows"
  shows "\<exists>x\<in>set (get_images cats). row_id r = row_id x \<and> img r = img x \<and>
           breed r = sanitize (breed x)"
proof -
  from assms(1) obtain ws where ws: "add_image_width (get_images cats) = Inr ws"
    and rows: "rows = map (\<lambda>r. r\<lparr>breed := sanitize (breed r)\<rparr>) (groupby_id_width 500 ws)"
    by (auto simp: cat_images_largest_def cat_breed_images_def split: sum.splits if_splits)
  from assms(2) rows obtain w where w: "w \<in> set ws" and r: "r = w\<lparr>breed := sanitize (breed w)\<rparr>"
    by (auto simp: set_groupby_id_width)
  from add_image_width_Inr [OF ws] w obtain x where "x \<in> set (get_images cats)"
    and "row_id w = row_id x" "breed w = breed x" "img w = img x"
    by auto
  with r show ?thesis by auto
qed

subsection \<open>First occurrences, empty columns\<close>

lemma find_map_rows: "List.find Q (map f xs) = map_option f (List.find (\<lambda>x. Q (f x)) xs)"
  by (induction xs) auto

lemma find_filter_rows: "List.find Q (filter P xs) = List.find (\<lambda>x. P x \<and> Q x) xs"
  by (induction xs) auto

lemma find_append_rows:
  "List.find Q (xs @ ys) = (case List.find Q xs of None \<Rightarrow> List.find Q ys | Some x \<Rightarrow> Some x)"
  by (induction xs) auto

lemma find_SomeD: "List.find Q xs = Some x \<Longrightarrow> x \<in> set xs \<and> Q x"
  by (induction xs) (auto split: if_splits)

lemma find_sort_key_rows:
  assumes "\<And>y. Q y \<Longrightarrow> f y = k"
  shows "List.find Q (sort_key f xs) = List.find Q xs"
proof -
  have "List.find Q ys = List.find Q (filter (\<lambda>y. f y = k) ys)" for ys
    unfolding find_filter_rows using assms by (intro find_cong) auto
  then have "List.find Q (sort_key f xs) = List.find Q (filter (\<lambda>y. f y = k) (sort_key f xs))"
    and "List.find Q xs = List.find Q (filter (\<lambda>y. f y = k) xs)"
    by blast+
  then show ?thesis by (simp only: sort_key_stable)
qed

lemma first_row_is_primary:
  assumes pre: "cat_images_largest cats = Inr pre"
    and hit: "List.find (\<lambda>x. row_id x = i \<and> img x = u) pre = Some r"
  shows "\<exists>p\<in>set cats. pet_id p = i \<and> Some u \<in> set (photos p) \<and> breed r = sanitize (breed0 p)"
proof -
  define widen where "widen = (\<lambda>r :: breed_photo. \<lparr>row_id = row_id r, breed = breed r, img = img r,
      image_width = (case url_width (img r) of Inr w \<Rightarrow> w | Inl e \<Rightarrow> 0)\<rparr>)"
  define san where "san = (\<lambda>r :: image_row. r\<lparr>breed := sanitize (breed r)\<rparr>)"
  define Q where "Q = (\<lambda>y :: breed_photo.
      (case url_width (img y) of Inr w \<Rightarrow> w | Inl e \<Rightarrow> 0) = 500 \<and> row_id y = i \<and> img y = u)"
  define B1 where "B1 = breeds1 (photos_melted cats)"
  define B2 where "B2 = breeds2 (photos_melted cats)"
  from pre obtain ws where ws: "add_image_width (get_images cats) = Inr ws"
    and pre_eq: "pre = map san (groupby_id_width 500 ws)"
    by (auto simp: cat_images_largest_def cat_breed_images_def san_def split: sum.splits if_splits)
  from add_image_width_Inr [OF ws] have ws_eq: "ws = map widen (get_images cats)"
    by (simp add: widen_def)
  have "List.find (\<lambda>x. row_id x = i \<and> img x = u) pre =
        map_option san (List.find (\<lambda>x. row_id x = i \<and> img x = u) (groupby_id_width 500 ws))"
    unfolding pre_eq find_map_rows by (simp add: san_def)
  also have "List.find (\<lambda>x. row_id x = i \<and> img x = u) (groupby_id_width 500 ws) =
        List.find (\<lambda>x. row_id x = i \<and> img x = u) (filter (\<lambda>r. image_width r = 500) ws)"
    unfolding groupby_id_width_def by (rule find_sort_key_rows [where k = i]) simp
  also have "\<dots> = map_option widen (List.find Q (get_images cats))"
    unfolding find_filter_rows ws_eq find_map_rows by (simp add: widen_def Q_def)
  also have "List.find Q (get_images cats) = List.find Q (B1 @ B2)"
    unfolding get_images_def Let_def drop_duplicates_def find_drop_duplicates_rows_from B1_def B2_def
    by simp
  finally have "map_option san (map_option widen (List.find Q (B1 @ B2))) = Some r"
    using hit by simp
  then obtain y where y: "List.find Q (B1 @ B2) = Some y" and r: "r = san (widen y)"
    by auto
  have "\<exists>z. List.find Q B1 = Some z"
  proof (cases "List.find Q B1")
    case None
    with y have "List.find Q B2 = Some y" by (simp add: find_append_rows)
    then have "y \<in> set B2" and qy: "Q y" by (auto dest: find_SomeD)
    then obtain p v b where p: "p \<in> set cats" "Some v \<in> set (photos p)"
      and yeq: "y = \<lparr>row_id = pet_id p, breed = b, img = v\<rparr>"
      unfolding B2_def set_breeds2 by blast
    let ?z = "\<lparr>row_id = pet_id p, breed = breed0 p, img = v\<rparr>"
    from p have "?z \<in> set B1" unfolding B1_def set_breeds1 by blast
    moreover from qy yeq have "Q ?z" by (auto simp: Q_def)
    ultimately have "List.find Q B1 \<noteq> None" by (auto simp: find_None_iff)
    with None show ?thesis by simp
  next
    case (Some z)
    then show ?thesis by simp
  qed
  with y have "List.find Q B1 = Some y" by (auto simp: find_append_rows)
  then have "y \<in> set B1" and qy: "Q y" by (auto dest: find_SomeD)
  then obtain p v where p: "p \<in> set cats" "Some v \<in> set (photos p)"
    and yeq: "y = \<lparr>row_id = pet_id p, breed = breed0 p, img = v\<rparr>"
    unfolding B1_def set_breeds1 by blast
  from qy yeq have "pet_id p = i" "v = u" by (simp_all add: Q_def)
  moreover from r yeq have "breed r = sanitize (breed0 p)" by (simp add: san_def widen_def)
  ultimately show ?thesis using p by blast
qed

lemma distinct_filter_card:
  "distinct xs \<Longrightarrow> length (filter P xs) = card {x \<in> set xs. P x}"
  by (metis distinct_card distinct_filter set_filter)

lemma distinct_map_filter_le_1:
  "distinct (map f xs) \<Longrightarrow> length (filter (\<lambda>x. f x = k) xs) \<le> 1"
  by (induction xs) (auto simp: filter_empty_conv image_iff)

lemma distinct_breed_images_5000:
  assumes "breed_images_5000 cats = Inr rows"
  shows "distinct (map (\<lambda>r. (row_id r, img r)) rows)"
proof -
  from assms obtain pre where pre: "breed_images cats = Inr pre"
    and rows: "rows = groupby_head breed 5000 pre"
    by (auto dest: breed_images_5000_Inr)
  from distinct_breed_images [OF pre] show ?thesis
    unfolding rows by (rule distinct_map_groupby_head)
qed

lemma concat_map_columns:
  "concat (map g (concat (map (\<lambda>j. map (h j) xs) js))) =
   concat (map (\<lambda>j. concat (map (\<lambda>x. g (h j x)) xs)) js)"
  by (induction js) (simp_all add: comp_def)

lemma photos_melted_columns:
  "photos_melted df =
   concat (map (\<lambda>j. concat (map (\<lambda>p. case photo_at p j of None \<Rightarrow> []
                                      | Some u \<Rightarrow> [(pet_id p, breed0 p, breed1 p, u)]) df))
               [0..<ncols df])"
  unfolding photos_melted_def melt_def concat_map_columns by simp

lemma concat_map_upt_cut:
  assumes "m \<le> n" and "\<And>j. m \<le> j \<Longrightarrow> f j = []"
  shows "concat (map f [0..<n]) = concat (map f [0..<m])"
proof -
  from assms(1) have "[0..<n] = [0..<m] @ [m..<n]"
    by (metis le_add_diff_inverse upt_add_eq_append zero_le)
  moreover have "concat (map f [m..<n]) = []"
    using assms(2) by simp
  ultimately show ?thesis by simp
qed

lemma ncols_filter_le: "ncols (filter P df) \<le> ncols df"
  unfolding ncols_def by (induction df) auto

lemma photo_at_ncols: "p \<in> set df \<Longrightarrow> ncols df \<le> j \<Longrightarrow> photo_at p j = None"
  using length_photos_le_ncols [of p df] by (simp add: photo_at_def)

lemma photo_at_no_photo: "\<not> has_photo p \<Longrightarrow> photo_at p j = None"
  by (auto simp: has_photo_def photo_at_def)

lemma photos_melted_has_photo: "photos_melted (filter has_photo df) = photos_melted df"
proof -
  let ?cell = "\<lambda>j p. case photo_at p j of None \<Rightarrow> []
                      | Some u \<Rightarrow> [(pet_id p, breed0 p, breed1 p, u)]"
  let ?col = "\<lambda>df j. concat (map (?cell j) df)"
  have col: "?col (filter has_photo df) j = ?col df j" for j
    by (induction df) (simp_all add: photo_at_no_photo)
  have empty: "?col (filter has_photo df) j = []" if "ncols (filter has_photo df) \<le> j" for j
  proof -
    have "photo_at p j = None" if "p \<in> set (filter has_photo df)" for p
      using that \<open>ncols (filter has_photo df) \<le> j\<close> by (rule photo_at_ncols)
    then show ?thesis by simp
  qed
  have "photos_melted (filter has_photo df) =
        concat (map (?col df) [0..<ncols (filter has_photo df)])"
    unfolding photos_melted_columns col ..
  also have "\<dots> = concat (map (?col df) [0..<ncols df])"
    by (rule concat_map_upt_cut [symmetric]) (use empty col ncols_filter_le in auto)
  also have "\<dots> = photos_melted df"
    unfolding photos_melted_columns ..
  finally show ?thesis .
qed

lemma get_images_has_photo: "get_images (filter has_photo df) = get_images df"
  by (simp add: get_images_def photos_melted_has_photo)

lemma breed_images_5000_error:
  "cat_breed_images cats = Inl e \<Longrightarrow>
   cat_images_largest cats = Inl e \<and> breed_images cats = Inl e \<and>
   breed_images_5000 cats = Inl e \<and> breed_list_new cats = Inl e"
  by (simp add: cat_images_largest_def breed_images_def breed_images_5000_def breed_list_new_def)

subsection \<open>A record with one photo in five sizes\<close>

lemma breed_images_has_key:
  assumes pre: "cat_images_largest cats = Inr pre" and rows: "breed_images cats = Inr rows"
    and x: "x \<in> set pre"
  shows "\<exists>r\<in>set rows. row_id r = row_id x \<and> img r = img x"
proof -
  from pre rows have "rows = drop_duplicates_from (\<lambda>r. (img r, row_id r)) [] pre"
    by (auto dest: breed_images_Inr simp: drop_duplicates_def)
  then have "(\<lambda>r. (img r, row_id r)) ` set rows = (\<lambda>r. (img r, row_id r)) ` set pre"
    by (simp add: keys_drop_duplicates_from)
  with x have "(img x, row_id x) \<in> (\<lambda>r. (img r, row_id r)) ` set rows" by auto
  then show ?thesis by auto
qed

lemma cat_images_largest_has_row:
  assumes pre: "cat_images_largest cats = Inr pre"
    and x: "x \<in> set (get_images cats)" and w: "url_width (img x) = Inr 500"
  shows "\<exists>r\<in>set pre. row_id r = row_id x \<and> img r = img x"
proof -
  from pre obtain ws where ws: "add_image_width (get_images cats) = Inr ws"
    and pre_eq: "pre = map (\<lambda>r. r\<lparr>breed := sanitize (breed r)\<rparr>) (groupby_id_width 500 ws)"
    by (auto simp: cat_images_largest_def cat_breed_images_def split: sum.splits if_splits)
  let ?w = "\<lparr>row_id = row_id x, breed = breed x, img = img x,
      image_width = (case url_width (img x) of Inr w \<Rightarrow> w | Inl e \<Rightarrow> 0)\<rparr>"
  from add_image_width_Inr [OF ws] x have "?w \<in> set ws" by auto
  with w have "?w \<in> set (groupby_id_width 500 ws)" by (simp add: set_groupby_id_width)
  then have "?w\<lparr>breed := sanitize (breed ?w)\<rparr> \<in> set pre"
    unfolding pre_eq set_map by (rule imageI)
  then show ?thesis by force
qed

lemma one_reference_per_record:
  assumes widths: "url_width u50 = Inr 50" "url_width u60 = Inr 60" "url_width u95 = Inr 95"
      "url_width u300 = Inr 300" "url_width u500 = Inr 500"
    and p: "p \<in> set cats" "photos p = [Some u50, Some u60, Some u95, Some u300, Some u500]"
    and same: "\<forall>q\<in>set cats. pet_id q = pet_id p \<longrightarrow> photos q = photos p"
    and rows: "breed_images cats = Inr rows"
  shows "length (filter (\<lambda>r. row_id r = pet_id p) rows) = 1 \<and>
         (\<forall>r\<in>set rows. row_id r = pet_id p \<longrightarrow> img r = u500)"
proof -
  from rows obtain pre where pre: "cat_images_largest cats = Inr pre"
    by (auto dest: breed_images_Inr)
  have only: "img r = u500" if r: "r \<in> set rows" and i: "row_id r = pet_id p" for r
  proof -
    from set_breed_images [OF pre rows] r have rp: "r \<in> set pre" by auto
    from cat_images_largest_width [OF pre rp] have w: "url_width (img r) = Inr 500" by simp
    from cat_images_largest_breed [OF pre rp] obtain x :: breed_photo
      where x: "x \<in> set (get_images cats)" "row_id r = row_id x" "img r = img x"
      by blast
    from x(1) obtain q where q: "q \<in> set cats" "pet_id q = row_id x" "Some (img x) \<in> set (photos q)"
      unfolding set_get_images by auto
    with same i x(2) have "Some (img x) \<in> set (photos p)" by auto
    with p(2) x(3) have "img r \<in> {u50, u60, u95, u300, u500}" by auto
    with w widths show ?thesis by auto
  qed
  have "filter (\<lambda>r. row_id r = pet_id p) rows =
        filter (\<lambda>r. (row_id r, img r) = (pet_id p, u500)) rows"
    using only by (intro filter_cong) auto
  moreover have "length (filter (\<lambda>r. (row_id r, img r) = (pet_id p, u500)) rows) \<le> 1"
    using distinct_breed_images [OF rows] by (rule distinct_map_filter_le_1)
  moreover have "filter (\<lambda>r. row_id r = pet_id p) rows \<noteq> []"
  proof -
    let ?x = "\<lparr>row_id = pet_id p, breed = breed0 p, img = u500\<rparr>"
    from p have "?x \<in> set (get_images cats)" unfolding set_get_images by auto
    moreover from widths have "url_width (img ?x) = Inr 500" by simp
    ultimately obtain y where "y \<in> set pre" "row_id y = pet_id p"
      using cat_images_largest_has_row [OF pre, of ?x] by auto
    with breed_images_has_key [OF pre rows] obtain r where "r \<in> set rows" "row_id r = pet_id p"
      by force
    then show ?thesis by (auto simp: filter_empty_conv)
  qed
  ultimately have "length (filter (\<lambda>r. row_id r = pet_id p) rows) \<le> 1"
    and "length (filter (\<lambda>r. row_id r = pet_id p) rows) \<noteq> 0"
    by simp_all
  then have "length (filter (\<lambda>r. row_id r = pet_id p) rows) = 1"
    by linarith
  with only show ?thesis by blast
qed

subsection \<open>The sample tables, run\<close>

lemma example_breed_images_run: "breed_images example_cats = Inr example_rows"
  by code_simp

lemma example_largest_run: "cat_images_largest example_cats = Inr example_largest"
  by code_simp

lemma example_rows_run: "breed_images_5000 example_cats = Inr example_rows"
  by code_simp

lemma example_triples_run: "breed_list_new example_cats = Inr example_triples"
  by code_simp

lemma two_breed_run:
  "breed_images_5000 [two_breed_cat] =
     Inr [\<lparr>row_id = 38017865, breed = ''Siamese'',
           img = ''http://photos.petfinder.com/photos/pets/38017865/1/?bust=1499&width=500&-x.jpg'',
           image_width = 500\<rparr>]"
  by code_simp

lemma same_breed_run:
  "breed_images_5000 [same_breed_cat] =
     Inr [\<lparr>row_id = 38017999, breed = ''Tabby'',
           img = ''http://photos.petfinder.com/photos/pets/38017999/1/?bust=1499&width=500&-x.jpg'',
           image_width = 500\<rparr>]"
  by code_simp

lemma same_breed_get_images:
  "get_images [same_breed_cat] =
     [\<lparr>row_id = 38017999, breed = ''Tabby'',
       img = ''http://photos.petfinder.com/photos/pets/38017999/1/?bust=1499&width=300&-pn.jpg''\<rparr>,
      \<lparr>row_id = 38017999, breed = ''Tabby'',
       img = ''http://photos.petfinder.com/photos/pets/38017999/1/?bust=1499&width=500&-x.jpg''\<rparr>]"
  by code_simp

lemma two_breed_list_run:
  "breed_list_new [two_breed_cat] =
     Inr [(0, ''Siamese'',
           ''http://photos.petfinder.com/photos/pets/38017865/1/?bust=1499&width=500&-x.jpg'')]"
  by code_simp

lemma no_width_run:
  "breed_images_5000 [no_width_cat] = Inl ValueError \<and> breed_list_new [no_width_cat] = Inl ValueError"
  by code_simp

lemma no_width_url:
  "url_width ''http://photos.petfinder.com/photos/pets/38018001/2.jpg'' = Inl ValueError"
  by code_simp

lemma has_photo_samples:
  "\<not> has_photo no_photo_cat" "has_photo two_breed_cat" "has_photo no_width_cat"
  by (simp_all add: has_photo_def no_photo_cat_def two_breed_cat_def no_width_cat_def)

lemma photo_url_widths:
  "url_width (photo_url ''50'' ''t'') = Inr 50"
  "url_width (photo_url ''60'' ''pnt'') = Inr 60"
  "url_width (photo_url ''95'' ''fpm'') = Inr 95"
  "url_width (photo_url ''300'' ''pn'') = Inr 300"
  "url_width (photo_url ''500'' ''x'') = Inr 500"
  by code_simp+

lemma sanitize_short_hair: "sanitize ''Domestic Short Hair'' = ''Domestic_Short_Hair''"
  by code_simp

lemma five_width_table_run:
  "breed_images [two_breed_cat, five_width_cat] =
     Inr [\<lparr>row_id = 38017865, breed = ''Siamese'',
           img = ''http://photos.petfinder.com/photos/pets/38017865/1/?bust=1499&width=500&-x.jpg'',
           image_width = 500\<rparr>,
          \<lparr>row_id = 40181161, breed = ''Domestic_Short_Hair'', img = photo_url ''500'' ''x'',
           image_width = 500\<rparr>]"
  by code_simp

section \<open>The claims\<close>

text \<open>
  C1. Whenever the pipeline produces its tables, every row that is left after the filter
  step (\<^verbatim>\<open>cat_images_largest\<close>), every row of the final table \<^verbatim>\<open>breed_images_5000\<close> and
  every triple of \<^verbatim>\<open>breed_list_new\<close> has a URL whose width, as the notebook reads it from
  the text after \<^verbatim>\<open>width=\<close>, is 500. No row with another width survives.
\<close>

theorem final_rows_have_width_500:
  "(\<forall>rows. cat_images_largest cats = Inr rows \<longrightarrow>
      (\<forall>r\<in>set rows. url_width (img r) = Inr 500 \<and> image_width r = 500)) \<and>
   (\<forall>rows. breed_images_5000 cats = Inr rows \<longrightarrow>
      (\<forall>r\<in>set rows. url_width (img r) = Inr 500 \<and> image_width r = 500)) \<and>
   (\<forall>triples. breed_list_new cats = Inr triples \<longrightarrow>
      (\<forall>(i, b, u)\<in>set triples. url_width u = Inr 500))"
proof -
  have largest: "url_width (img r) = Inr 500 \<and> image_width r = 500"
    if "cat_images_largest cats = Inr rows" "r \<in> set rows" for rows r
    using that by (rule cat_images_largest_width)
  have final: "url_width (img r) = Inr 500 \<and> image_width r = 500"
    if rows: "breed_images_5000 cats = Inr rows" and r: "r \<in> set rows" for rows r
  proof -
    from rows obtain pre where pre: "cat_images_largest cats = Inr pre"
      by (auto dest!: breed_images_5000_Inr breed_images_Inr)
    with rows r have "r \<in> set pre"
      using set_breed_images_5000 by blast
    with pre show ?thesis by (rule cat_images_largest_width)
  qed
  have "url_width u = Inr 500"
    if triples: "breed_list_new cats = Inr triples" and t: "(i, b, u) \<in> set triples"
    for triples i b u
    using triple_in_breed_list_new [OF triples t] final by auto
  with largest final show ?thesis by blast
qed

theorem final_rows_have_width_500_witness:
  "cat_images_largest example_cats = Inr example_largest \<and>
   breed_images_5000 example_cats = Inr example_rows \<and>
   breed_list_new example_cats = Inr example_triples \<and>
   map (\<lambda>r. url_width (img r)) example_largest = [Inr 500, Inr 500, Inr 500] \<and>
   map (\<lambda>r. url_width (img r)) example_rows = [Inr 500, Inr 500] \<and>
   map (\<lambda>(i, b, u). url_width u) example_triples = [Inr 500, Inr 500]"
  using final_rows_have_width_500 [of example_cats]
    example_largest_run example_rows_run example_triples_run
  by (simp add: example_largest_def example_rows_def example_triples_def)

text \<open>
  C2. The table \<^verbatim>\<open>breed_images\<close> has at most one row for each pair of identifier and
  URL, and so has the capped table \<^verbatim>\<open>breed_images_5000\<close>. Assigning the indices keeps the
  rows as they are: the triples of \<^verbatim>\<open>breed_list_new\<close> are the rows of the capped table,
  numbered from 0.
\<close>

theorem one_row_per_id_and_url:
  "(\<forall>rows. breed_images cats = Inr rows \<longrightarrow> distinct (map (\<lambda>r. (row_id r, img r)) rows)) \<and>
   (\<forall>rows. breed_images_5000 cats = Inr rows \<longrightarrow>
      distinct (map (\<lambda>r. (row_id r, img r)) rows)) \<and>
   (\<forall>triples. breed_list_new cats = Inr triples \<longrightarrow>
      map fst triples = [0..<length triples] \<and>
      (\<exists>rows. breed_images_5000 cats = Inr rows \<and>
         map snd triples = map (\<lambda>r. (breed r, img r)) rows))"
proof -
  have a: "distinct (map (\<lambda>r. (row_id r, img r)) rows)" if "breed_images cats = Inr rows" for rows
    using that by (rule distinct_breed_images)
  have b: "distinct (map (\<lambda>r. (row_id r, img r)) rows)"
    if "breed_images_5000 cats = Inr rows" for rows
    using that by (rule distinct_breed_images_5000)
  have c: "map fst triples = [0..<length triples] \<and>
      (\<exists>rows. breed_images_5000 cats = Inr rows \<and>
         map snd triples = map (\<lambda>r. (breed r, img r)) rows)"
    if "breed_list_new cats = Inr triples" for triples
  proof -
    from that obtain rows where rows: "breed_images_5000 cats = Inr rows"
      and triples: "triples = map (\<lambda>(i, r). (i, breed r, img r)) (zip [0..<length rows] rows)"
      by (auto dest: breed_list_new_Inr)
    have "map fst triples = [0..<length rows]"
      unfolding triples using map_zip_fst [of "[0..<length rows]" rows "\<lambda>i. i"]
      by (simp add: case_prod_unfold comp_def)
    then have 1: "map fst triples = [0..<length triples]"
      by (simp add: triples)
    have "map snd triples = map (\<lambda>r. (breed r, img r)) rows"
      unfolding triples using map_zip_snd [of "[0..<length rows]" rows "\<lambda>r. (breed r, img r)"]
      by (simp add: case_prod_unfold comp_def)
    with 1 rows show ?thesis by blast
  qed
  from a b c show ?thesis by blast
qed

theorem one_row_per_id_and_url_witness:
  "breed_images example_cats = Inr example_rows \<and>
   breed_images_5000 example_cats = Inr example_rows \<and>
   breed_list_new example_cats = Inr example_triples \<and>
   distinct (map (\<lambda>r. (row_id r, img r)) example_rows) \<and>
   map fst example_triples = [0..<length example_triples]"
  using one_row_per_id_and_url [of example_cats]
    example_breed_images_run example_rows_run example_triples_run
  by simp

text \<open>
  C3. For every breed label, the capped table \<^verbatim>\<open>breed_images_5000\<close> and the download
  list \<^verbatim>\<open>breed_list_new\<close> hold at most 5000 rows with that label.
\<close>

theorem breed_cap:
  "(\<forall>rows. breed_images_5000 cats = Inr rows \<longrightarrow>
      length (filter (\<lambda>r. breed r = b) rows) \<le> 5000) \<and>
   (\<forall>triples. breed_list_new cats = Inr triples \<longrightarrow>
      length (filter (\<lambda>(i, b', u). b' = b) triples) \<le> 5000)"
proof -
  have rows: "length (filter (\<lambda>r. breed r = b) rows) \<le> 5000"
    if "breed_images_5000 cats = Inr rows" for rows
  proof -
    from that obtain pre where "rows = groupby_head breed 5000 pre"
      by (auto dest: breed_images_5000_Inr)
    then show ?thesis by (simp add: filter_groupby_head)
  qed
  have "length (filter (\<lambda>(i, b', u). b' = b) triples) \<le> 5000"
    if "breed_list_new cats = Inr triples" for triples
  proof -
    from that obtain rs where rs: "breed_images_5000 cats = Inr rs"
      and triples: "triples = map (\<lambda>(i, r). (i, breed r, img r)) (zip [0..<length rs] rs)"
      by (auto dest: breed_list_new_Inr)
    have "length (filter (\<lambda>(i, b', u). b' = b) triples) =
          length (filter (\<lambda>p. breed (snd p) = b) (zip [0..<length rs] rs))"
      unfolding triples by (simp add: filter_map comp_def case_prod_unfold)
    also have "\<dots> = length (filter (\<lambda>r. breed r = b) rs)"
      by (rule filter_zip_snd) simp
    finally show ?thesis using rows [OF rs] by simp
  qed
  with rows show ?thesis by blast
qed

theorem breed_cap_witness:
  "breed_images_5000 example_cats = Inr example_rows \<and>
   breed_list_new example_cats = Inr example_triples \<and>
   length (filter (\<lambda>r. breed r = ''Tabby'') example_rows) \<le> 5000 \<and>
   length (filter (\<lambda>(i, b', u). b' = ''Tabby'') example_triples) \<le> 5000"
  using breed_cap [of example_cats "''Tabby''"] example_rows_run example_triples_run
  by simp

text \<open>
  C4. Sanitising a label turns every space into an underscore and deletes every slash,
  and leaves the other characters alone. No breed label of the capped table or of the
  download list contains a space or a slash.
\<close>

theorem sanitized_labels:
  "sanitize l = map (\<lambda>c. if c = CHR '' '' then CHR ''_'' else c) (filter (\<lambda>c. c \<noteq> CHR ''/'') l) \<and>
   (\<forall>rows. breed_images_5000 cats = Inr rows \<longrightarrow>
      (\<forall>r\<in>set rows. CHR '' '' \<notin> set (breed r) \<and> CHR ''/'' \<notin> set (breed r))) \<and>
   (\<forall>triples. breed_list_new cats = Inr triples \<longrightarrow>
      (\<forall>(i, b, u)\<in>set triples. CHR '' '' \<notin> set b \<and> CHR ''/'' \<notin> set b))"
proof -
  have rows: "CHR '' '' \<notin> set (breed r) \<and> CHR ''/'' \<notin> set (breed r)"
    if rows: "breed_images_5000 cats = Inr rows" and r: "r \<in> set rows" for rows r
  proof -
    from rows obtain pre where pre: "cat_images_largest cats = Inr pre"
      by (auto dest!: breed_images_5000_Inr breed_images_Inr)
    with rows r have "r \<in> set pre"
      using set_breed_images_5000 by blast
    from cat_images_largest_breed [OF pre this] obtain x :: breed_photo where "breed r = sanitize (breed x)"
      by blast
    then show ?thesis by (simp only: sanitize_clean) simp
  qed
  have "CHR '' '' \<notin> set b \<and> CHR ''/'' \<notin> set b"
    if triples: "breed_list_new cats = Inr triples" and t: "(i, b, u) \<in> set triples"
    for triples i b u
    using triple_in_breed_list_new [OF triples t] rows by auto
  with rows sanitize_eq [of l] show ?thesis by blast
qed

theorem sanitized_labels_witness:
  "sanitize ''Extra-Toes Cat / Hemingway Polydactyl'' = ''Extra-Toes_Cat__Hemingway_Polydactyl'' \<and>
   breed_images_5000 example_cats = Inr example_rows \<and>
   breed_list_new example_cats = Inr example_triples \<and>
   list_all (\<lambda>r. CHR '' '' \<notin> set (breed r) \<and> CHR ''/'' \<notin> set (breed r)) example_rows \<and>
   list_all (\<lambda>(i, b, u). CHR '' '' \<notin> set b \<and> CHR ''/'' \<notin> set b) example_triples"
  using sanitized_labels [of "''Extra-Toes Cat / Hemingway Polydactyl''" example_cats]
    example_rows_run example_triples_run
  by (simp add: list_all_iff)

text \<open>
  C5, as amended. For a record with two breed labels and a photo URL,
  \<^verbatim>\<open>get_images\<close> returns one row for each distinct label: two rows for that URL when
  the labels differ, one when they are the same, since its \<^verbatim>\<open>drop_duplicates()\<close>
  compares all columns. In the final table at most one row is left for the record and
  the URL.
\<close>

theorem rows_of_two_labels:
  assumes "p \<in> set cats" and "breed1 p = Some b" and "Some u \<in> set (photos p)"
  shows "length (filter (\<lambda>r. row_id r = pet_id p \<and> img r = u \<and> (breed r = breed0 p \<or> breed r = b))
                   (get_images cats)) =
           (if breed0 p = b then 1 else 2) \<and>
         (\<forall>rows. breed_images_5000 cats = Inr rows \<longrightarrow>
            length (filter (\<lambda>r. row_id r = pet_id p \<and> img r = u) rows) \<le> 1)"
proof -
  let ?P = "\<lambda>r :: breed_photo. row_id r = pet_id p \<and> img r = u \<and> (breed r = breed0 p \<or> breed r = b)"
  have "{r \<in> set (get_images cats). ?P r} =
        {\<lparr>row_id = pet_id p, breed = breed0 p, img = u\<rparr>, \<lparr>row_id = pet_id p, breed = b, img = u\<rparr>}"
    (is "?L = ?R")
  proof (intro equalityI subsetI)
    fix r assume "r \<in> ?L"
    then have "?P r" by simp
    then have "r = \<lparr>row_id = pet_id p, breed = breed0 p, img = u\<rparr> \<or>
               r = \<lparr>row_id = pet_id p, breed = b, img = u\<rparr>"
      by (cases r) auto
    then show "r \<in> ?R" by simp
  next
    fix r assume "r \<in> ?R"
    with assms show "r \<in> ?L" unfolding set_get_images by auto
  qed
  then have "length (filter ?P (get_images cats)) =
      card {\<lparr>row_id = pet_id p, breed = breed0 p, img = u\<rparr>, \<lparr>row_id = pet_id p, breed = b, img = u\<rparr>}"
    by (simp add: distinct_filter_card [OF distinct_get_images])
  also have "\<dots> = (if breed0 p = b then 1 else 2)" by simp
  finally have first: "length (filter ?P (get_images cats)) = (if breed0 p = b then 1 else 2)" .
  have "length (filter (\<lambda>r. row_id r = pet_id p \<and> img r = u) rows) \<le> 1"
    if "breed_images_5000 cats = Inr rows" for rows
  proof -
    from distinct_breed_images_5000 [OF that]
    have "length (filter (\<lambda>r. (row_id r, img r) = (pet_id p, u)) rows) \<le> 1"
      by (rule distinct_map_filter_le_1)
    then show ?thesis by simp
  qed
  with first show ?thesis by blast
qed

theorem rows_of_two_labels_witness:
  "breed1 two_breed_cat = Some ''Tabby'' \<and>
   Some ''http://photos.petfinder.com/photos/pets/38017865/1/?bust=1499&width=500&-x.jpg''
     \<in> set (photos two_breed_cat) \<and>
   length (filter (\<lambda>r. row_id r = 38017865 \<and>
       img r = ''http://photos.petfinder.com/photos/pets/38017865/1/?bust=1499&width=500&-x.jpg'' \<and>
       (breed r = ''Siamese'' \<or> breed r = ''Tabby'')) (get_images [two_breed_cat])) = 2 \<and>
   breed1 same_breed_cat = Some ''Tabby'' \<and>
   Some ''http://photos.petfinder.com/photos/pets/38017999/1/?bust=1499&width=500&-x.jpg''
     \<in> set (photos same_breed_cat) \<and>
   length (filter (\<lambda>r. row_id r = 38017999 \<and>
       img r = ''http://photos.petfinder.com/photos/pets/38017999/1/?bust=1499&width=500&-x.jpg'' \<and>
       (breed r = ''Tabby'' \<or> breed r = ''Tabby'')) (get_images [same_breed_cat])) = 1 \<and>
   breed_images_5000 [two_breed_cat] =
     Inr [\<lparr>row_id = 38017865, breed = ''Siamese'',
           img = ''http://photos.petfinder.com/photos/pets/38017865/1/?bust=1499&width=500&-x.jpg'',
           image_width = 500\<rparr>]"
proof -
  have a: "breed1 two_breed_cat = Some ''Tabby''"
    and b: "Some ''http://photos.petfinder.com/photos/pets/38017865/1/?bust=1499&width=500&-x.jpg''
     \<in> set (photos two_breed_cat)"
    by (simp_all add: two_breed_cat_def)
  have c: "breed1 same_breed_cat = Some ''Tabby''"
    and d: "Some ''http://photos.petfinder.com/photos/pets/38017999/1/?bust=1499&width=500&-x.jpg''
     \<in> set (photos same_breed_cat)"
    by (simp_all add: same_breed_cat_def)
  have e: "pet_id two_breed_cat = 38017865" "breed0 two_breed_cat = ''Siamese''"
    "pet_id same_breed_cat = 38017999" "breed0 same_breed_cat = ''Tabby''"
    by (simp_all add: two_breed_cat_def same_breed_cat_def)
  from rows_of_two_labels [of two_breed_cat "[two_breed_cat]", OF _ a b]
    rows_of_two_labels [of same_breed_cat "[same_breed_cat]", OF _ c d] a b c d two_breed_run
  show ?thesis by (simp add: e)
qed

text \<open>
  The claim as stated fails: a record with the labels Siamese and Tabby ends as the one
  row Siamese, and a record with the label Tabby twice has one row for each photo
  already in \<^verbatim>\<open>get_images\<close>, and one row at the end.
\<close>

theorem two_labels_one_final_row:
  "breed_images_5000 [two_breed_cat] =
     Inr [\<lparr>row_id = 38017865, breed = ''Siamese'',
           img = ''http://photos.petfinder.com/photos/pets/38017865/1/?bust=1499&width=500&-x.jpg'',
           image_width = 500\<rparr>] \<and>
   breed_images_5000 [same_breed_cat] =
     Inr [\<lparr>row_id = 38017999, breed = ''Tabby'',
           img = ''http://photos.petfinder.com/photos/pets/38017999/1/?bust=1499&width=500&-x.jpg'',
           image_width = 500\<rparr>] \<and>
   get_images [same_breed_cat] =
     [\<lparr>row_id = 38017999, breed = ''Tabby'',
       img = ''http://photos.petfinder.com/photos/pets/38017999/1/?bust=1499&width=300&-pn.jpg''\<rparr>,
      \<lparr>row_id = 38017999, breed = ''Tabby'',
       img = ''http://photos.petfinder.com/photos/pets/38017999/1/?bust=1499&width=500&-x.jpg''\<rparr>]"
  using two_breed_run same_breed_run same_breed_get_images by simp

text \<open>
  C6. A record with the photo URLs of one photo in the widths 50, 60, 95, 300 and 500.
  When it is the only record of the table, the final table has exactly one row, the one
  of the URL of width 500, and the download list has exactly one triple, whatever the
  identifier and the breed labels are. In any table where the records with the same
  identifier carry the same photos, \<^verbatim>\<open>breed_images\<close> has exactly one row for the
  identifier, and it is the URL of width 500.
\<close>

theorem five_widths_one_row:
  assumes "url_width u50 = Inr 50" and "url_width u60 = Inr 60" and "url_width u95 = Inr 95"
    and "url_width u300 = Inr 300" and "url_width u500 = Inr 500"
  shows "breed_images_5000
           [\<lparr>pet_id = i, breed0 = b0, breed1 = b1,
             photos = [Some u50, Some u60, Some u95, Some u300, Some u500]\<rparr>] =
         Inr [\<lparr>row_id = i, breed = sanitize b0, img = u500, image_width = 500\<rparr>] \<and>
         breed_list_new
           [\<lparr>pet_id = i, breed0 = b0, breed1 = b1,
             photos = [Some u50, Some u60, Some u95, Some u300, Some u500]\<rparr>] =
         Inr [(0, sanitize b0, u500)] \<and>
         (\<forall>cats p rows.
            p \<in> set cats \<longrightarrow>
            photos p = [Some u50, Some u60, Some u95, Some u300, Some u500] \<longrightarrow>
            (\<forall>q\<in>set cats. pet_id q = pet_id p \<longrightarrow> photos q = photos p) \<longrightarrow>
            breed_images cats = Inr rows \<longrightarrow>
            length (filter (\<lambda>r. row_id r = pet_id p) rows) = 1 \<and>
            (\<forall>r\<in>set rows. row_id r = pet_id p \<longrightarrow> img r = u500))"
proof -
  let ?cats = "[\<lparr>pet_id = i, breed0 = b0, breed1 = b1,
             photos = [Some u50, Some u60, Some u95, Some u300, Some u500]\<rparr>]"
  from assms have ne: "u50 \<noteq> u60" "u50 \<noteq> u95" "u50 \<noteq> u300" "u50 \<noteq> u500"
    "u60 \<noteq> u95" "u60 \<noteq> u300" "u60 \<noteq> u500" "u95 \<noteq> u300" "u95 \<noteq> u500" "u300 \<noteq> u500"
    by auto
  have melted: "photos_melted ?cats =
      [(i, b0, b1, u50), (i, b0, b1, u60), (i, b0, b1, u95), (i, b0, b1, u300), (i, b0, b1, u500)]"
    by (simp add: photos_melted_def melt_def ncols_def photo_at_def upt_rec [of _ "Suc _"] eval_nat_numeral)
  have rows: "get_images ?cats =
      [\<lparr>row_id = i, breed = b0, img = u50\<rparr>, \<lparr>row_id = i, breed = b0, img = u60\<rparr>,
       \<lparr>row_id = i, breed = b0, img = u95\<rparr>, \<lparr>row_id = i, breed = b0, img = u300\<rparr>,
       \<lparr>row_id = i, breed = b0, img = u500\<rparr>] @
      (case b1 of None \<Rightarrow> []
       | Some b \<Rightarrow> if b = b0 then []
           else [\<lparr>row_id = i, breed = b, img = u50\<rparr>, \<lparr>row_id = i, breed = b, img = u60\<rparr>,
                 \<lparr>row_id = i, breed = b, img = u95\<rparr>, \<lparr>row_id = i, breed = b, img = u300\<rparr>,
                 \<lparr>row_id = i, breed = b, img = u500\<rparr>])"
    unfolding get_images_def Let_def melted using ne
    by (cases b1) (auto simp: breeds1_def breeds2_def drop_duplicates_def)
  have largest: "cat_images_largest ?cats =
      Inr (\<lparr>row_id = i, breed = sanitize b0, img = u500, image_width = 500\<rparr> #
           (case b1 of None \<Rightarrow> []
            | Some b \<Rightarrow> if b = b0 then []
                else [\<lparr>row_id = i, breed = sanitize b, img = u500, image_width = 500\<rparr>]))"
    unfolding cat_images_largest_def cat_breed_images_def rows using assms
    by (cases b1) (auto simp: groupby_id_width_def)
  have images: "breed_images ?cats =
      Inr [\<lparr>row_id = i, breed = sanitize b0, img = u500, image_width = 500\<rparr>]"
    unfolding breed_images_def largest
    by (cases b1) (auto simp: drop_duplicates_def)
  have final: "breed_images_5000 ?cats =
      Inr [\<lparr>row_id = i, breed = sanitize b0, img = u500, image_width = 500\<rparr>]"
    by (simp add: breed_images_5000_def images groupby_head_def)
  then have single: "breed_list_new ?cats = Inr [(0, sanitize b0, u500)]"
    by (simp add: breed_list_new_def)
  have "length (filter (\<lambda>r. row_id r = pet_id p) rows) = 1 \<and>
        (\<forall>r\<in>set rows. row_id r = pet_id p \<longrightarrow> img r = u500)"
    if "p \<in> set cats" and "photos p = [Some u50, Some u60, Some u95, Some u300, Some u500]"
      and "\<forall>q\<in>set cats. pet_id q = pet_id p \<longrightarrow> photos q = photos p"
      and "breed_images cats = Inr rows" for cats p rows
    using assms that by (rule one_reference_per_record)
  with final single show ?thesis by blast
qed

theorem five_widths_one_row_witness:
  "url_width (photo_url ''50'' ''t'') = Inr 50 \<and>
   url_width (photo_url ''60'' ''pnt'') = Inr 60 \<and>
   url_width (photo_url ''95'' ''fpm'') = Inr 95 \<and>
   url_width (photo_url ''300'' ''pn'') = Inr 300 \<and>
   url_width (photo_url ''500'' ''x'') = Inr 500 \<and>
   breed_images_5000 [five_width_cat] =
     Inr [\<lparr>row_id = 40181161, breed = ''Domestic_Short_Hair'', img = photo_url ''500'' ''x'',
           image_width = 500\<rparr>] \<and>
   breed_list_new [five_width_cat] = Inr [(0, ''Domestic_Short_Hair'', photo_url ''500'' ''x'')] \<and>
   five_width_cat \<in> set [two_breed_cat, five_width_cat] \<and>
   pet_id two_breed_cat \<noteq> pet_id five_width_cat \<and>
   breed_images [two_breed_cat, five_width_cat] =
     Inr [\<lparr>row_id = 38017865, breed = ''Siamese'',
           img = ''http://photos.petfinder.com/photos/pets/38017865/1/?bust=1499&width=500&-x.jpg'',
           image_width = 500\<rparr>,
          \<lparr>row_id = 40181161, breed = ''Domestic_Short_Hair'', img = photo_url ''500'' ''x'',
           image_width = 500\<rparr>] \<and>
   length (filter (\<lambda>r. row_id r = pet_id five_width_cat)
     [\<lparr>row_id = 38017865, breed = ''Siamese'',
       img = ''http://photos.petfinder.com/photos/pets/38017865/1/?bust=1499&width=500&-x.jpg'',
       image_width = 500\<rparr>,
      \<lparr>row_id = 40181161, breed = ''Domestic_Short_Hair'', img = photo_url ''500'' ''x'',
       image_width = 500\<rparr>]) = 1"
proof -
  note inst = five_widths_one_row [OF photo_url_widths, of 40181161 "''Domestic Short Hair''" "Some ''Tabby''"]
  have ids: "pet_id two_breed_cat \<noteq> pet_id five_width_cat"
    by (simp add: two_breed_cat_def five_width_cat_def)
  have ph: "photos five_width_cat =
      [Some (photo_url ''50'' ''t''), Some (photo_url ''60'' ''pnt''),
       Some (photo_url ''95'' ''fpm''), Some (photo_url ''300'' ''pn''),
       Some (photo_url ''500'' ''x'')]"
    by (simp add: five_width_cat_def)
  have same: "\<forall>q\<in>set [two_breed_cat, five_width_cat].
      pet_id q = pet_id five_width_cat \<longrightarrow> photos q = photos five_width_cat"
    using ids by simp
  from inst have general: "length (filter (\<lambda>r. row_id r = pet_id five_width_cat)
     [\<lparr>row_id = 38017865, breed = ''Siamese'',
       img = ''http://photos.petfinder.com/photos/pets/38017865/1/?bust=1499&width=500&-x.jpg'',
       image_width = 500\<rparr>,
      \<lparr>row_id = 40181161, breed = ''Domestic_Short_Hair'', img = photo_url ''500'' ''x'',
       image_width = 500\<rparr>]) = 1"
    using ph same five_width_table_run by (meson list.set_intros)
  from inst have "breed_images_5000 [five_width_cat] =
     Inr [\<lparr>row_id = 40181161, breed = ''Domestic_Short_Hair'', img = photo_url ''500'' ''x'',
           image_width = 500\<rparr>] \<and>
   breed_list_new [five_width_cat] = Inr [(0, ''Domestic_Short_Hair'', photo_url ''500'' ''x'')]"
    by (simp add: five_width_cat_def sanitize_short_hair)
  with general photo_url_widths ids five_width_table_run show ?thesis by simp
qed

text \<open>
  C7, as amended. When the fetch fails with an HTTP error, the worker prints the status
  code and returns. When the fetch fails in any other way, the worker prints nothing
  and the exception leaves it. When the fetch succeeds the worker returns.
\<close>

theorem worker_catches_http_error_only:
  "(urlretrieve url (image_path i b) = Failed (HTTPError code) \<longrightarrow>
      download_breed_images urlretrieve (i, b, url) = (Returns, [code])) \<and>
   (urlretrieve url (image_path i b) = Failed err \<longrightarrow> (\<forall>c. err \<noteq> HTTPError c) \<longrightarrow>
      download_breed_images urlretrieve (i, b, url) = (Raises err, [])) \<and>
   (urlretrieve url (image_path i b) = Saved \<longrightarrow>
      download_breed_images urlretrieve (i, b, url) = (Returns, []))"
  by (cases err) (simp_all add: download_breed_images_def)

theorem worker_catches_http_error_only_witness:
  "download_breed_images (\<lambda>url path. Failed (HTTPError 415))
     (0, ''Tabby'', ''http://photos.petfinder.com/photos/pets/38018075/1/?bust=1498&width=500&-x.jpg'')
   = (Returns, [415]) \<and>
   download_breed_images (\<lambda>url path. Failed SocketTimeout)
     (0, ''Tabby'', ''http://photos.petfinder.com/photos/pets/38018075/1/?bust=1498&width=500&-x.jpg'')
   = (Raises SocketTimeout, []) \<and>
   download_breed_images (\<lambda>url path. Saved)
     (0, ''Tabby'', ''http://photos.petfinder.com/photos/pets/38018075/1/?bust=1498&width=500&-x.jpg'')
   = (Returns, [])"
  using
    worker_catches_http_error_only [of "\<lambda>url path. Failed (HTTPError 415)" _ 0 "''Tabby''" 415]
    worker_catches_http_error_only [of "\<lambda>url path. Failed SocketTimeout" _ 0 "''Tabby''" _
      SocketTimeout]
    worker_catches_http_error_only [of "\<lambda>url path. Saved" _ 0 "''Tabby''"]
  by simp

text \<open>
  The claim as stated fails: a fetch that cannot resolve the host raises
  \<^verbatim>\<open>URLError\<close>, which the worker does not catch.
\<close>

theorem url_error_is_raised:
  "download_breed_images (\<lambda>url path. Failed (URLError ''Name or service not known''))
     (0, ''Tabby'', ''http://photos.petfinder.com/photos/pets/38018075/1/?bust=1498&width=500&-x.jpg'')
   = (Raises (URLError ''Name or service not known''), [])"
  by (simp add: download_breed_images_def)

text \<open>
  C8, as amended. A missing photo cell gives no row and no error: every row of
  \<^verbatim>\<open>get_images\<close> comes from a photo cell that is present, and the records without any
  photo can be left out of the table without changing the result of a later step. A
  photo cell that is present and whose URL has no width that converts is not dropped:
  the pipeline raises and produces no table.
\<close>

theorem missing_photos_are_dropped:
  "(\<forall>r\<in>set (get_images cats). \<exists>p\<in>set cats. row_id r = pet_id p \<and> Some (img r) \<in> set (photos p)) \<and>
   get_images (filter has_photo cats) = get_images cats \<and>
   breed_images_5000 (filter has_photo cats) = breed_images_5000 cats \<and>
   breed_list_new (filter has_photo cats) = breed_list_new cats \<and>
   (\<forall>p\<in>set cats. \<forall>u e. Some u \<in> set (photos p) \<longrightarrow> url_width u = Inl e \<longrightarrow>
      (\<exists>e'. breed_images_5000 cats = Inl e' \<and> breed_list_new cats = Inl e'))"
proof -
  have src: "\<exists>p\<in>set cats. row_id r = pet_id p \<and> Some (img r) \<in> set (photos p)"
    if "r \<in> set (get_images cats)" for r
    using that unfolding set_get_images by auto
  have same: "breed_images_5000 (filter has_photo cats) = breed_images_5000 cats"
    by (simp add: breed_images_5000_def breed_images_def cat_images_largest_def
        cat_breed_images_def get_images_has_photo)
  then have list: "breed_list_new (filter has_photo cats) = breed_list_new cats"
    by (simp add: breed_list_new_def)
  have bad: "\<exists>e'. breed_images_5000 cats = Inl e' \<and> breed_list_new cats = Inl e'"
    if p: "p \<in> set cats" and u: "Some u \<in> set (photos p)" and e: "url_width u = Inl e"
    for p u e
  proof -
    let ?r = "\<lparr>row_id = pet_id p, breed = breed0 p, img = u\<rparr>"
    from p u have "?r \<in> set (get_images cats)"
      unfolding set_get_images by blast
    moreover from e have "url_width (img ?r) = Inl e" by simp
    ultimately obtain e' where "add_image_width (get_images cats) = Inl e'"
      using add_image_width_Inl by blast
    then have "cat_breed_images cats = Inl e'" by (simp add: cat_breed_images_def)
    from breed_images_5000_error [OF this] show ?thesis by blast
  qed
  from src same list bad get_images_has_photo [of cats] show ?thesis by blast
qed

theorem missing_photos_are_dropped_witness:
  "filter has_photo [no_photo_cat, two_breed_cat] = [two_breed_cat] \<and>
   breed_images_5000 [no_photo_cat, two_breed_cat] =
     Inr [\<lparr>row_id = 38017865, breed = ''Siamese'',
           img = ''http://photos.petfinder.com/photos/pets/38017865/1/?bust=1499&width=500&-x.jpg'',
           image_width = 500\<rparr>] \<and>
   breed_list_new [no_photo_cat, two_breed_cat] =
     Inr [(0, ''Siamese'',
           ''http://photos.petfinder.com/photos/pets/38017865/1/?bust=1499&width=500&-x.jpg'')] \<and>
   Some ''http://photos.petfinder.com/photos/pets/38018001/2.jpg'' \<in> set (photos no_width_cat) \<and>
   url_width ''http://photos.petfinder.com/photos/pets/38018001/2.jpg'' = Inl ValueError \<and>
   breed_list_new [no_photo_cat, no_width_cat] = Inl ValueError"
proof -
  have f: "filter has_photo [no_photo_cat, two_breed_cat] = [two_breed_cat]"
    "filter has_photo [no_photo_cat, no_width_cat] = [no_width_cat]"
    by (simp_all add: has_photo_samples)
  have u: "Some ''http://photos.petfinder.com/photos/pets/38018001/2.jpg'' \<in> set (photos no_width_cat)"
    by (simp add: no_width_cat_def)
  from missing_photos_are_dropped [of "[no_photo_cat, two_breed_cat]"]
    missing_photos_are_dropped [of "[no_photo_cat, no_width_cat]"]
  show ?thesis
    unfolding f using two_breed_run two_breed_list_run no_width_run no_width_url u by simp
qed

text \<open>
  The claim as stated fails: one URL without \<^verbatim>\<open>width=\<close> makes
  \<^verbatim>\<open>.astype(int)\<close> raise \<^verbatim>\<open>ValueError\<close>.
\<close>

theorem no_width_raises:
  "breed_images_5000 [no_width_cat] = Inl ValueError \<and> breed_list_new [no_width_cat] = Inl ValueError"
  by code_simp

text \<open>
  C9. \<^verbatim>\<open>groupby(key).head(n)\<close> returns a subsequence of the table, and for each group
  exactly the first \<open>n\<close> rows of the group (all of them when there are fewer). The
  capped table is \<^verbatim>\<open>breed_images\<close> cut this way, per breed, with \<open>n = 5000\<close>.
\<close>

theorem cap_keeps_first_rows:
  "subseq (groupby_head key n xs) xs \<and>
   (\<forall>k. filter (\<lambda>x. key x = k) (groupby_head key n xs) = take n (filter (\<lambda>x. key x = k) xs)) \<and>
   (\<forall>pre. breed_images cats = Inr pre \<longrightarrow>
      (\<exists>rows. breed_images_5000 cats = Inr rows \<and> subseq rows pre \<and>
         (\<forall>b. filter (\<lambda>r. breed r = b) rows = take 5000 (filter (\<lambda>r. breed r = b) pre))))"
  by (simp add: breed_images_5000_def subseq_groupby_head filter_groupby_head)

theorem cap_keeps_first_rows_witness:
  "groupby_head breed 1 (example_rows @ example_rows) = example_rows \<and>
   subseq example_rows (example_rows @ example_rows) \<and>
   breed_images example_cats = Inr example_rows \<and>
   breed_images_5000 example_cats = Inr example_rows \<and>
   filter (\<lambda>r. breed r = ''Tabby'') example_rows =
     take 5000 (filter (\<lambda>r. breed r = ''Tabby'') example_rows)"
proof -
  have run: "groupby_head breed 1 (example_rows @ example_rows) = example_rows"
    by code_simp
  from cap_keeps_first_rows [of breed 1 "example_rows @ example_rows" example_cats]
    example_breed_images_run example_rows_run run
  show ?thesis by auto
qed

text \<open>
  C10. \<^verbatim>\<open>drop_duplicates(subset=['img', 'id'])\<close> keeps the first occurrences, in table
  order: \<^verbatim>\<open>breed_images\<close> is a subsequence of \<^verbatim>\<open>cat_images_largest\<close>; for every row of
  \<^verbatim>\<open>cat_images_largest\<close>, the first row with its identifier and URL is kept; and every
  row that is kept is the first row with its identifier and URL. The label of a row
  that is kept is the sanitised primary label \<^verbatim>\<open>breed0\<close> of a record with this identifier
  and this photo: the rows of the secondary labels come later in the table and are
  dropped.
\<close>

theorem dedup_keeps_primary_breed:
  assumes "cat_images_largest cats = Inr pre" and "breed_images cats = Inr rows"
  shows "subseq rows pre \<and>
         (\<forall>x\<in>set pre. \<exists>r\<in>set rows.
            List.find (\<lambda>y. row_id y = row_id x \<and> img y = img x) pre = Some r) \<and>
         (\<forall>r\<in>set rows.
            List.find (\<lambda>x. row_id x = row_id r \<and> img x = img r) pre = Some r \<and>
            (\<exists>p\<in>set cats. pet_id p = row_id r \<and> Some (img r) \<in> set (photos p) \<and>
               breed r = sanitize (breed0 p)))"
proof -
  from assms have rows: "rows = drop_duplicates_from (\<lambda>r. (img r, row_id r)) [] pre"
    by (auto dest: breed_images_Inr simp: drop_duplicates_def)
  then have sub: "subseq rows pre"
    by (simp add: subseq_drop_duplicates_from)
  have first: "List.find (\<lambda>x. row_id x = row_id r \<and> img x = img r) pre = Some r"
    if "r \<in> set rows" for r
  proof -
    from that rows have "r \<in> set (drop_duplicates_from (\<lambda>r. (img r, row_id r)) [] pre)"
      by simp
    then have "List.find (\<lambda>y. (img y, row_id y) = (img r, row_id r)) pre = Some r"
      by (rule find_drop_duplicates_from)
    moreover have "List.find (\<lambda>y. (img y, row_id y) = (img r, row_id r)) pre =
        List.find (\<lambda>x. row_id x = row_id r \<and> img x = img r) pre"
      by (intro find_cong) auto
    ultimately show ?thesis by (simp only:)
  qed
  have kept: "\<exists>r\<in>set rows. List.find (\<lambda>y. row_id y = row_id x \<and> img y = img x) pre = Some r"
    if "x \<in> set pre" for x
  proof -
    from breed_images_has_key [OF assms that] obtain r
      where r: "r \<in> set rows" "row_id r = row_id x" "img r = img x"
      by blast
    from first [OF r(1)] r(2,3)
    have "List.find (\<lambda>y. row_id y = row_id x \<and> img y = img x) pre = Some r"
      by simp
    with r(1) show ?thesis by blast
  qed
  have primary: "\<exists>p\<in>set cats. pet_id p = row_id r \<and> Some (img r) \<in> set (photos p) \<and>
      breed r = sanitize (breed0 p)"
    if "r \<in> set rows" for r
    using first_row_is_primary [OF assms(1) first [OF that]] .
  from sub kept first primary show ?thesis by blast
qed

theorem dedup_keeps_primary_breed_witness:
  "cat_images_largest example_cats = Inr example_largest \<and>
   breed_images example_cats = Inr example_rows \<and>
   subseq example_rows example_largest \<and>
   example_extra_toes_row \<in> set example_largest \<and>
   example_extra_toes_row \<notin> set example_rows \<and>
   List.find (\<lambda>y. row_id y = row_id example_extra_toes_row \<and> img y = img example_extra_toes_row)
     example_largest = Some example_short_hair_row \<and>
   example_short_hair_row \<in> set example_rows \<and>
   List.find (\<lambda>x. row_id x = row_id example_short_hair_row \<and> img x = img example_short_hair_row)
     example_largest = Some example_short_hair_row \<and>
   (\<exists>p\<in>set example_cats. pet_id p = row_id example_short_hair_row \<and>
      Some (img example_short_hair_row) \<in> set (photos p) \<and>
      breed example_short_hair_row = sanitize (breed0 p))"
proof -
  note inst = dedup_keeps_primary_breed [OF example_largest_run example_breed_images_run]
  have mem: "example_short_hair_row \<in> set example_rows"
    by (simp add: example_rows_def example_short_hair_row_def)
  have sec: "example_extra_toes_row \<in> set example_largest"
    "example_extra_toes_row \<notin> set example_rows"
    by (simp_all add: example_largest_def example_rows_def example_extra_toes_row_def)
  from inst sec(1) obtain r where r: "r \<in> set example_rows"
    "List.find (\<lambda>y. row_id y = row_id example_extra_toes_row \<and> img y = img example_extra_toes_row)
       example_largest = Some r"
    by blast
  from r(2) have "row_id r = row_id example_extra_toes_row"
    by (auto dest: find_SomeD)
  with r(1) have "r = example_short_hair_row"
    by (auto simp: example_rows_def example_short_hair_row_def example_extra_toes_row_def)
  with r(2) have hit: "List.find (\<lambda>y. row_id y = row_id example_extra_toes_row \<and>
      img y = img example_extra_toes_row) example_largest = Some example_short_hair_row"
    by simp
  from inst mem sec hit example_largest_run example_breed_images_run show ?thesis by blast
qed

end
